theory Spec2Isabelle
  imports Main
begin

section \<open>Data model\<close>

text \<open>
  The command of \<^verbatim>\<open>ckboximageeditcommand.ts\<close> is modelled by explicit state passing.
  A model element (the result of \<^verbatim>\<open>selection.getSelectedElement()\<close>) has a name and
  an attribute map.
\<close>

record element =
  el_name :: string
  el_attrs :: "string \<rightharpoonup> string"

text \<open>
  The object returned by \<^verbatim>\<open>prepareImageAssetAttributes\<close> and the \<^verbatim>\<open>source\<close> object
  handed to the insert-image command. An entry of the sources list is
  (srcset, sizes, type).
\<close>

record image_attributes =
  imageFallbackUrl :: string
  imageSources :: "(string \<times> string \<times> string) list"
  imageTextAlternative :: string
  imageWidth :: int
  imageHeight :: int
  imagePlaceholder :: "string option"

record image_source =
  src :: string
  sources :: "(string \<times> string \<times> string) list"
  alt :: string
  width :: int
  height :: int
  placeholder :: "string option"

text \<open>
  \<^verbatim>\<open>CKBoxRawAssetDataDefinition\<close> and \<^verbatim>\<open>CKBoxRawAssetDefinition\<close>. Their declarations
  are imported as types only; the fields are those the command reads
  (\<^verbatim>\<open>data.id\<close>, \<^verbatim>\<open>response.metadata.metadataProcessingStatus\<close>, \<^verbatim>\<open>asset.data\<close>) and the
  derived attributes of the asset descriptor. An optional field is an \<open>option\<close>.
\<close>

record asset_metadata =
  metadataProcessingStatus :: "string option"

record asset_data =
  asset_id :: string
  metadata :: "asset_metadata option"
  derivedAttributes :: image_attributes

record asset =
  data :: asset_data

text \<open>\<^verbatim>\<open>new URL( relative, base )\<close>, kept unresolved.\<close>

datatype url = URL string string

text \<open>The argument of \<^verbatim>\<open>sendHttpRequest\<close>; a signal is the number of its AbortController.\<close>

record http_request =
  url :: url
  signal :: nat
  authorization :: string

text \<open>
  What can be thrown while polling: a rejected request, a property read on a missing
  \<^verbatim>\<open>metadata\<close>, and \<^verbatim>\<open>new Error( 'Image has not been processed yet.' )\<close>.
\<close>

datatype error = HttpError | TypeError | NotProcessedYet

text \<open>The four \<^verbatim>\<open>ckboxImageEditor:*\<close> events; save and processed carry an asset.\<close>

datatype event = Open | Close | Save asset | Processed asset

text \<open>Everything the command does to its collaborators, in order of occurrence.\<close>

datatype effect =
    NewAbortController nat
  | HttpRequest http_request
  | MountImageEditor nat "string option" string
  | Focus
  | InsertImage image_source
  | SetAttribute string string
  | Fired event

text \<open>
  The collaborators that are not part of the command: configuration, the token, the
  HTTP transport (its answer to the k-th request sent), the retry bound, the helper
  \<^verbatim>\<open>prepareImageAssetAttributes\<close> and the insert-image command, which returns the
  element that is selected after it ran (the source asserts with \<^verbatim>\<open>!\<close> that there is one).
\<close>

record env =
  serviceOrigin :: string
  tokenUrl :: string
  token :: string
  maxAttempts :: nat
  sendHttpRequest :: "nat \<Rightarrow> http_request \<Rightarrow> error + asset_data"
  prepareImageAssetAttributes :: "asset \<Rightarrow> image_attributes"
  insertImage :: "image_source \<Rightarrow> element option \<Rightarrow> element"

text \<open>
  A poll sequence that has been started and has not settled: the asset of its save
  event, the number of attempts its retry loop may still make counting the current
  one, and either the answer to the request under way or, during the delay of the
  retry loop, nothing.
\<close>

record poll =
  p_asset :: asset
  p_left :: nat
  p_reply :: "(error + asset_data) option"

text \<open>
  The fields of the command (\<^verbatim>\<open>value\<close>, \<^verbatim>\<open>isEnabled\<close>, \<^verbatim>\<open>_wrapper\<close>, \<^verbatim>\<open>_ckboxImageId\<close>,
  \<^verbatim>\<open>controller\<close>) followed by the part of the world it touches: the selected element
  of the document model, the mount points attached to \<^verbatim>\<open>document.body\<close>, the
  allocators of DOM elements and AbortControllers, the number of HTTP requests sent,
  the poll sequences that have not settled yet, and the trace of effects.
\<close>

record state =
  cmd_value :: bool
  isEnabled :: bool
  wrapper :: "nat option"
  ckboxImageId :: "string option"
  controller :: nat
  selection :: "element option"
  body :: "nat list"
  next_element :: nat
  next_controller :: nat
  requests :: nat
  pending :: "poll list"
  log :: "effect list"

section \<open>The command\<close>

text \<open>The constructor; \<^verbatim>\<open>isEnabled\<close> starts as false in the base class.\<close>

definition init :: "element option \<Rightarrow> state" where
  "init sel =
     \<lparr> cmd_value = False, isEnabled = False, wrapper = None, ckboxImageId = None,
       controller = 0, selection = sel, body = [], next_element = 0,
       next_controller = 1, requests = 0, pending = [],
       log = [NewAbortController 0] \<rparr>"

definition getValue :: "state \<Rightarrow> bool" where
  "getValue s = (wrapper s \<noteq> None)"

definition isImageElement :: "element option \<Rightarrow> bool" where
  "isImageElement sel =
     (case sel of None \<Rightarrow> False
      | Some e \<Rightarrow> el_name e = ''imageInline'' \<or> el_name e = ''imageBlock'')"

definition hasCkboxImageId :: "element option \<Rightarrow> bool" where
  "hasCkboxImageId sel =
     (case sel of None \<Rightarrow> False | Some e \<Rightarrow> el_attrs e ''ckboxImageId'' \<noteq> None)"

definition getAttribute :: "element option \<Rightarrow> string \<Rightarrow> string option" where
  "getAttribute sel key = (case sel of None \<Rightarrow> None | Some e \<Rightarrow> el_attrs e key)"

definition refresh :: "state \<Rightarrow> state" where
  "refresh s =
     (let s1 = s\<lparr>cmd_value := getValue s\<rparr>;
          selectedElement = selection s1
      in if isImageElement selectedElement \<and> hasCkboxImageId selectedElement
         then s1\<lparr>isEnabled := True,
                 ckboxImageId := getAttribute selectedElement ''ckboxImageId''\<rparr>
         else s1\<lparr>isEnabled := False, ckboxImageId := None\<rparr>)"

definition open_handler :: "env \<Rightarrow> state \<Rightarrow> state" where
  "open_handler en s =
     (if \<not> isEnabled s \<or> getValue s then s
      else let w = next_element s
           in s\<lparr>cmd_value := True, wrapper := Some w, next_element := Suc w,
                body := body s @ [w],
                log := log s @ [MountImageEditor w (ckboxImageId s) (tokenUrl en)]\<rparr>)"

definition close_handler :: "state \<Rightarrow> state" where
  "close_handler s =
     (case wrapper s of None \<Rightarrow> s
      | Some w \<Rightarrow> s\<lparr>body := removeAll w (body s), wrapper := None,
                     log := log s @ [Focus]\<rparr>)"

definition image_source_of :: "image_attributes \<Rightarrow> image_source" where
  "image_source_of at =
     \<lparr> src = imageFallbackUrl at, sources = imageSources at,
       alt = imageTextAlternative at, width = imageWidth at, height = imageHeight at,
       placeholder = (case imagePlaceholder at of None \<Rightarrow> None
                      | Some p \<Rightarrow> if p = [] then None else Some p) \<rparr>"

definition processed_handler :: "env \<Rightarrow> asset \<Rightarrow> state \<Rightarrow> state" where
  "processed_handler en a s =
     (let source = image_source_of (prepareImageAssetAttributes en a);
          selectedImageElement = insertImage en source (selection s);
          tagged = selectedImageElement
            \<lparr>el_attrs := (el_attrs selectedImageElement)
                           (''ckboxImageId'' \<mapsto> asset_id (data a))\<rparr>
      in s\<lparr>selection := Some tagged,
           log := log s @ [InsertImage source,
                           SetAttribute ''ckboxImageId'' (asset_id (data a))]\<rparr>)"

section \<open>The asset-ready poller\<close>

text \<open>\<^verbatim>\<open>!status\<close> on an optional string: undefined and the empty string are falsy.\<close>

definition falsy :: "string option \<Rightarrow> bool" where
  "falsy status = (case status of None \<Rightarrow> True | Some v \<Rightarrow> v = [])"

text \<open>
  The two halves of \<^verbatim>\<open>_getAssetStatusFromServer\<close> around its \<^verbatim>\<open>await\<close>: sending the
  request, which yields the answer that will arrive and the state after sending, and
  the check of the answer once it has arrived. The function itself, below, is the one
  followed by the other (lemma \<open>getAssetStatusFromServer_split\<close>).
\<close>

definition send_status_request ::
  "env \<Rightarrow> asset_data \<Rightarrow> state \<Rightarrow> (error + asset_data) \<times> state" where
  "send_status_request en d s =
     (let abortController = next_controller s;
          request = \<lparr> url = URL (''assets/'' @ asset_id d) (serviceOrigin en),
                      signal = abortController, authorization = token en \<rparr>
      in (sendHttpRequest en (requests s) request,
          s\<lparr>next_controller := Suc abortController,
            requests := Suc (requests s),
            log := log s @ [NewAbortController abortController,
                            HttpRequest request]\<rparr>))"

definition check_status :: "error + asset_data \<Rightarrow> error + asset_data" where
  "check_status reply =
     (case reply of
        Inl e \<Rightarrow> Inl e
      | Inr response \<Rightarrow>
          (case metadata response of
             None \<Rightarrow> Inl TypeError
           | Some m \<Rightarrow>
               (let status = metadataProcessingStatus m
                in if falsy status \<or> status = Some ''queued''
                   then Inl NotProcessedYet
                   else Inr response)))"

definition getAssetStatusFromServer ::
  "env \<Rightarrow> asset_data \<Rightarrow> state \<Rightarrow> (error + asset_data) \<times> state" where
  "getAssetStatusFromServer en d s =
     (let abortController = next_controller s;
          request = \<lparr> url = URL (''assets/'' @ asset_id d) (serviceOrigin en),
                      signal = abortController, authorization = token en \<rparr>;
          s' = s\<lparr>next_controller := Suc abortController,
                 requests := Suc (requests s),
                 log := log s @ [NewAbortController abortController,
                                 HttpRequest request]\<rparr>
      in case sendHttpRequest en (requests s) request of
           Inl e \<Rightarrow> (Inl e, s')
         | Inr response \<Rightarrow>
             (case metadata response of
                None \<Rightarrow> (Inl TypeError, s')
              | Some m \<Rightarrow>
                  (let status = metadataProcessingStatus m
                   in if falsy status \<or> status = Some ''queued''
                      then (Inl NotProcessedYet, s')
                      else (Inr response, s'))))"

text \<open>
  Modelled from the spec: the generic \<^verbatim>\<open>retry\<close> utility of the utils package is not
  among the sources. It makes a bounded number of attempts and, when the bound is
  exhausted, fails with the failure of the last attempt. The first attempt is always
  made. The delay between two attempts is real time and has no counterpart here.
\<close>

fun retry ::
  "nat \<Rightarrow> (state \<Rightarrow> (error + 'a) \<times> state) \<Rightarrow> state \<Rightarrow> (error + 'a) \<times> state" where
  "retry n callback s =
     (case callback s of
        (Inr r, s') \<Rightarrow> (Inr r, s')
      | (Inl e, s') \<Rightarrow> if n \<le> 1 then (Inl e, s') else retry (n - 1) callback s')"

text \<open>The promise of \<^verbatim>\<open>_waitForAssetProcessed\<close> never rejects; \<open>None\<close> is undefined.\<close>

definition waitForAssetProcessed ::
  "env \<Rightarrow> asset \<Rightarrow> state \<Rightarrow> asset_data option \<times> state" where
  "waitForAssetProcessed en a s =
     (case retry (maxAttempts en) (getAssetStatusFromServer en (data a)) s of
        (Inr r, s') \<Rightarrow> (Some r, s')
      | (Inl err, s') \<Rightarrow> (None, s'))"

section \<open>Events and tasks\<close>

text \<open>
  The save listener calls \<^verbatim>\<open>_waitForAssetProcessed( asset )\<close>, which runs up to its first
  \<^verbatim>\<open>await\<close>: the first status request is sent inside the listener. The rest of the
  poll sequence runs in later tasks; it is recorded in \<open>pending\<close> with the bound the
  retry loop has for it and the answer under way.
\<close>

definition save_handler :: "env \<Rightarrow> asset \<Rightarrow> state \<Rightarrow> state" where
  "save_handler en a s =
     (let (reply, s') = send_status_request en (data a) s
      in s'\<lparr>pending := pending s'
                @ [\<lparr> p_asset = a, p_left = maxAttempts en, p_reply = Some reply \<rparr>]\<rparr>)"

fun handler :: "env \<Rightarrow> event \<Rightarrow> state \<Rightarrow> state" where
  "handler en Open s = open_handler en s"
| "handler en Close s = close_handler s"
| "handler en (Save a) s = save_handler en a s"
| "handler en (Processed a) s = processed_handler en a s"

text \<open>
  Firing \<^verbatim>\<open>ckboxImageEditor:x\<close> runs the listener of that event and then, at low
  priority, the listener of the namespace \<^verbatim>\<open>ckboxImageEditor\<close>, which refreshes.
\<close>

definition fire :: "env \<Rightarrow> event \<Rightarrow> state \<Rightarrow> state" where
  "fire en ev s = refresh (handler en ev (s\<lparr>log := log s @ [Fired ev]\<rparr>))"

definition execute :: "env \<Rightarrow> state \<Rightarrow> state" where
  "execute en s = fire en Open s"

text \<open>
  The task in which the i-th pending poll sequence goes on. If an answer is under
  way, it arrives and is checked: on a ready response the promise of
  \<^verbatim>\<open>_waitForAssetProcessed\<close> resolves with it; on a failure the retry loop either has
  attempts left and starts its delay, or gives up, and then the \<^verbatim>\<open>catch\<close> makes the
  promise resolve with undefined. In both cases of resolving, the \<^verbatim>\<open>then\<close> callback of
  the save listener, which takes no argument, fires the processed event with the
  asset of the save event. If the delay is under way, it ends and the next status
  request is sent.
\<close>

definition resume :: "env \<Rightarrow> nat \<Rightarrow> state \<Rightarrow> state" where
  "resume en i s =
     (if i < length (pending s)
      then let p = pending s ! i;
               others = take i (pending s) @ drop (Suc i) (pending s)
           in case p_reply p of
                None \<Rightarrow>
                  (let (reply, s') = send_status_request en (data (p_asset p)) s
                   in s'\<lparr>pending := (pending s')[i := p\<lparr>p_reply := Some reply\<rparr>]\<rparr>)
              | Some reply \<Rightarrow>
                  (case check_status reply of
                     Inr r \<Rightarrow> fire en (Processed (p_asset p)) (s\<lparr>pending := others\<rparr>)
                   | Inl e \<Rightarrow>
                       if p_left p \<le> 1
                       then fire en (Processed (p_asset p)) (s\<lparr>pending := others\<rparr>)
                       else s\<lparr>pending := (pending s)
                              [i := p\<lparr>p_left := p_left p - 1, p_reply := None\<rparr>]\<rparr>)
      else s)"

text \<open>
  What can happen to the command, one task at a time: \<^verbatim>\<open>execute()\<close>, one of its events
  being fired (the dialog fires close and save), a change of the document selection
  followed by the refresh it triggers (the external refresh trigger of the spec), and
  a pending poll sequence going on.
\<close>

datatype action = Execute | Fire event | Change "element option" | Resume nat

fun step :: "env \<Rightarrow> action \<Rightarrow> state \<Rightarrow> state" where
  "step en Execute s = execute en s"
| "step en (Fire ev) s = fire en ev s"
| "step en (Change sel) s = refresh (s\<lparr>selection := sel\<rparr>)"
| "step en (Resume i) s = resume en i s"

fun run :: "env \<Rightarrow> action list \<Rightarrow> state \<Rightarrow> state" where
  "run en [] s = s"
| "run en (a # as) s = run en as (step en a s)"

section \<open>Derived notions\<close>

text \<open>The request one call of \<^verbatim>\<open>_getAssetStatusFromServer\<close> sends, and the state it leaves.\<close>

definition poll_request :: "env \<Rightarrow> asset_data \<Rightarrow> state \<Rightarrow> http_request" where
  "poll_request en d s =
     \<lparr> url = URL (''assets/'' @ asset_id d) (serviceOrigin en),
       signal = next_controller s, authorization = token en \<rparr>"

definition after_request :: "env \<Rightarrow> asset_data \<Rightarrow> state \<Rightarrow> state" where
  "after_request en d s =
     s\<lparr>next_controller := Suc (next_controller s), requests := Suc (requests s),
       log := log s @ [NewAbortController (next_controller s),
                       HttpRequest (poll_request en d s)]\<rparr>"

text \<open>The trace of m consecutive attempts, the first with AbortController number c.\<close>

fun poll_log :: "env \<Rightarrow> asset_data \<Rightarrow> nat \<Rightarrow> nat \<Rightarrow> effect list" where
  "poll_log en d c 0 = []"
| "poll_log en d c (Suc m) =
     NewAbortController c
     # HttpRequest \<lparr> url = URL (''assets/'' @ asset_id d) (serviceOrigin en),
                      signal = c, authorization = token en \<rparr>
     # poll_log en d (Suc c) m"

definition after_requests :: "env \<Rightarrow> asset_data \<Rightarrow> nat \<Rightarrow> state \<Rightarrow> state" where
  "after_requests en d m s =
     s\<lparr>next_controller := next_controller s + m, requests := requests s + m,
       log := log s @ poll_log en d (next_controller s) m\<rparr>"

text \<open>\<^verbatim>\<open>response.metadata.metadataProcessingStatus\<close>, where it can be read.\<close>

definition status_of :: "asset_data \<Rightarrow> string option" where
  "status_of response =
     (case metadata response of None \<Rightarrow> None | Some m \<Rightarrow> metadataProcessingStatus m)"

text \<open>An answer of the transport on which \<^verbatim>\<open>_getAssetStatusFromServer\<close> does not throw.\<close>

definition ready :: "error + asset_data \<Rightarrow> bool" where
  "ready reply =
     (case reply of Inl e \<Rightarrow> False
      | Inr response \<Rightarrow>
          \<not> falsy (status_of response) \<and> status_of response \<noteq> Some ''queued'')"

text \<open>Projections of the trace.\<close>

fun http_requests :: "effect list \<Rightarrow> http_request list" where
  "http_requests [] = []"
| "http_requests (HttpRequest r # es) = r # http_requests es"
| "http_requests (e # es) = http_requests es"

fun mounts :: "effect list \<Rightarrow> nat list" where
  "mounts [] = []"
| "mounts (MountImageEditor w i t # es) = w # mounts es"
| "mounts (e # es) = mounts es"

fun focus_calls :: "effect list \<Rightarrow> nat" where
  "focus_calls [] = 0"
| "focus_calls (Focus # es) = Suc (focus_calls es)"
| "focus_calls (e # es) = focus_calls es"

fun insert_images :: "effect list \<Rightarrow> image_source list" where
  "insert_images [] = []"
| "insert_images (InsertImage source # es) = source # insert_images es"
| "insert_images (e # es) = insert_images es"

fun set_attributes :: "effect list \<Rightarrow> (string \<times> string) list" where
  "set_attributes [] = []"
| "set_attributes (SetAttribute k v # es) = (k, v) # set_attributes es"
| "set_attributes (e # es) = set_attributes es"

fun fired :: "effect list \<Rightarrow> event list" where
  "fired [] = []"
| "fired (Fired ev # es) = ev # fired es"
| "fired (e # es) = fired es"

text \<open>
  The session invariant: the body holds exactly the mount point of the open session,
  the \<open>value\<close> flag says whether there is one, and every mount of the image editor but
  that of the open session has been followed by a close with its focus call.
\<close>

definition session_inv :: "state \<Rightarrow> bool" where
  "session_inv s =
     (body s = (case wrapper s of None \<Rightarrow> [] | Some w \<Rightarrow> [w])
      \<and> cmd_value s = (wrapper s \<noteq> None)
      \<and> length (mounts (log s))
          = focus_calls (log s) + (if wrapper s = None then 0 else 1))"

text \<open>The signals of the status requests in the trace of a state.\<close>

definition request_signals :: "state \<Rightarrow> nat list" where
  "request_signals s = map signal (http_requests (log s))"

section \<open>A mocked environment\<close>

text \<open>
  Concrete collaborators for evaluating the command: an asset \<open>A1\<close> as the dialog saves
  it, the answers of a mocked status endpoint, which carry refined attributes, and an
  environment around a given endpoint and retry bound.
\<close>

definition attrs_saved :: image_attributes where
  "attrs_saved =
     \<lparr> imageFallbackUrl = ''https://cdn/A1/saved.jpeg'', imageSources = [],
       imageTextAlternative = ''saved'', imageWidth = 100, imageHeight = 50,
       imagePlaceholder = None \<rparr>"

definition attrs_refined :: image_attributes where
  "attrs_refined =
     \<lparr> imageFallbackUrl = ''https://cdn/A1/refined.jpeg'', imageSources = [],
       imageTextAlternative = ''refined'', imageWidth = 80, imageHeight = 40,
       imagePlaceholder = Some ''blur'' \<rparr>"

definition asset_A1 :: asset where
  "asset_A1 =
     \<lparr> data = \<lparr> asset_id = ''A1'', metadata = None, derivedAttributes = attrs_saved \<rparr> \<rparr>"

definition status_response :: "string option \<Rightarrow> asset_data" where
  "status_response st =
     \<lparr> asset_id = ''A1'', metadata = Some \<lparr> metadataProcessingStatus = st \<rparr>,
       derivedAttributes = attrs_refined \<rparr>"

definition queued_then_success :: "nat \<Rightarrow> nat \<Rightarrow> error + asset_data" where
  "queued_then_success n k =
     (if k < n then Inr (status_response (Some ''queued''))
      else Inr (status_response (Some ''success'')))"

definition always_queued :: "nat \<Rightarrow> error + asset_data" where
  "always_queued k = Inr (status_response (Some ''queued''))"

definition empty_status :: "nat \<Rightarrow> error + asset_data" where
  "empty_status k = Inr (status_response (Some ''''))"

definition mock_env :: "nat \<Rightarrow> (nat \<Rightarrow> error + asset_data) \<Rightarrow> env" where
  "mock_env bound endpoint =
     \<lparr> serviceOrigin = ''https://api.ckbox.io'', tokenUrl = ''https://example.com/token'',
       token = ''jwt'', maxAttempts = bound,
       sendHttpRequest = (\<lambda>k request. endpoint k),
       prepareImageAssetAttributes = (\<lambda>a. derivedAttributes (data a)),
       insertImage = (\<lambda>source sel.
          \<lparr> el_name = ''imageBlock'', el_attrs = [''src'' \<mapsto> src source] \<rparr>) \<rparr>"

definition image_A1 :: element where
  "image_A1 = \<lparr> el_name = ''imageBlock'', el_attrs = [''ckboxImageId'' \<mapsto> ''A1''] \<rparr>"

definition paragraph_element :: element where
  "paragraph_element = \<lparr> el_name = ''paragraph'', el_attrs = Map.empty \<rparr>"

text \<open>The state after the image \<open>A1\<close> has been selected and the command executed.\<close>

definition open_A1 :: state where
  "open_A1 = run (mock_env 4 always_queued) [Change (Some image_A1), Execute] (init None)"

text \<open>A state whose cache is stale: nothing is selected, yet an old target id is cached.\<close>

definition stale_state :: state where
  "stale_state = (init None)\<lparr>isEnabled := True, ckboxImageId := Some ''old''\<rparr>"

section \<open>Refresh\<close>

text \<open>
  C6. After a refresh: if the selected element is an \<open>imageInline\<close> or \<open>imageBlock\<close>
  element carrying a \<open>ckboxImageId\<close> attribute, the command is enabled and the cached
  target id is the value of that attribute; for every other selection the command is
  disabled and the cached target id is null; and both are functions of the selection
  alone, so two states with the same selection agree on them after a refresh, whatever
  they had cached before.
\<close>

theorem refresh_from_selection:
  "(selection s = Some e \<and> (el_name e = ''imageInline'' \<or> el_name e = ''imageBlock'')
      \<and> el_attrs e ''ckboxImageId'' = Some v
      \<longrightarrow> isEnabled (refresh s) \<and> ckboxImageId (refresh s) = Some v)
   \<and> ((\<forall>e'. selection s = Some e' \<longrightarrow>
          \<not> ((el_name e' = ''imageInline'' \<or> el_name e' = ''imageBlock'')
             \<and> el_attrs e' ''ckboxImageId'' \<noteq> None))
      \<longrightarrow> \<not> isEnabled (refresh s) \<and> ckboxImageId (refresh s) = None)
   \<and> (selection t = selection s
      \<longrightarrow> isEnabled (refresh t) = isEnabled (refresh s)
          \<and> ckboxImageId (refresh t) = ckboxImageId (refresh s))"
  by (auto simp add: refresh_def isImageElement_def hasCkboxImageId_def getAttribute_def
      Let_def split: option.splits)

theorem refresh_from_selection_witness:
  "selection (init (Some image_A1)) = Some image_A1
   \<and> el_name image_A1 = ''imageBlock'' \<and> el_attrs image_A1 ''ckboxImageId'' = Some ''A1''
   \<and> isEnabled (refresh (init (Some image_A1)))
   \<and> ckboxImageId (refresh (init (Some image_A1))) = Some ''A1''
   \<and> selection stale_state = None
   \<and> \<not> isEnabled (refresh stale_state) \<and> ckboxImageId (refresh stale_state) = None
   \<and> selection ((init (Some paragraph_element))\<lparr>ckboxImageId := Some ''old''\<rparr>)
       = selection (init (Some paragraph_element))
   \<and> ckboxImageId (refresh ((init (Some paragraph_element))\<lparr>ckboxImageId := Some ''old''\<rparr>))
       = ckboxImageId (refresh (init (Some paragraph_element)))"
  using refresh_from_selection [of "init (Some image_A1)" image_A1 "''A1''" "init (Some image_A1)"]
    refresh_from_selection [of stale_state image_A1 "''A1''"
       "(init (Some paragraph_element))\<lparr>ckboxImageId := Some ''old''\<rparr>"]
    refresh_from_selection [of "init (Some paragraph_element)" image_A1 "''A1''"
       "(init (Some paragraph_element))\<lparr>ckboxImageId := Some ''old''\<rparr>"]
  by (simp add: init_def image_A1_def stale_state_def paragraph_element_def)

section \<open>One status request\<close>

lemma snd_getAssetStatusFromServer:
  "snd (getAssetStatusFromServer en d s) = after_request en d s"
  by (simp add: getAssetStatusFromServer_def after_request_def poll_request_def Let_def
      split: sum.splits option.splits)

lemma fst_getAssetStatusFromServer_ready:
  "ready (sendHttpRequest en (requests s) (poll_request en d s)) \<Longrightarrow>
   fst (getAssetStatusFromServer en d s) = sendHttpRequest en (requests s) (poll_request en d s)"
  by (auto simp add: getAssetStatusFromServer_def ready_def status_of_def poll_request_def
      Let_def falsy_def split: sum.splits option.splits)

lemma fst_getAssetStatusFromServer_not_ready:
  "\<not> ready (sendHttpRequest en (requests s) (poll_request en d s)) \<Longrightarrow>
   \<exists>e. fst (getAssetStatusFromServer en d s) = Inl e"
  by (auto simp add: getAssetStatusFromServer_def ready_def status_of_def poll_request_def
      Let_def falsy_def split: sum.splits option.splits)

text \<open>
  C3, as the code has it. With \<open>response\<close> the answer to the request, the call throws
  if and only if the processing status is missing (also when the whole \<open>metadata\<close> is),
  is the empty string, or is \<open>queued\<close>; in every other case it returns the response
  unchanged.
\<close>

theorem getAssetStatusFromServer_throws_iff:
  "sendHttpRequest en (requests s) (poll_request en d s) = Inr response \<Longrightarrow>
   ((\<exists>e. fst (getAssetStatusFromServer en d s) = Inl e)
      \<longleftrightarrow> (status_of response = None \<or> status_of response = Some ''''
           \<or> status_of response = Some ''queued''))
   \<and> (\<not> (status_of response = None \<or> status_of response = Some ''''
           \<or> status_of response = Some ''queued'')
      \<longrightarrow> fst (getAssetStatusFromServer en d s) = Inr response)"
  by (auto simp add: getAssetStatusFromServer_def status_of_def poll_request_def
      Let_def falsy_def split: sum.splits option.splits)

theorem getAssetStatusFromServer_throws_iff_witness:
  "sendHttpRequest (mock_env 4 (queued_then_success 0)) (requests (init None))
      (poll_request (mock_env 4 (queued_then_success 0)) (data asset_A1) (init None))
     = Inr (status_response (Some ''success''))
   \<and> \<not> (status_of (status_response (Some ''success'')) = None
         \<or> status_of (status_response (Some ''success'')) = Some ''''
         \<or> status_of (status_response (Some ''success'')) = Some ''queued'')
   \<and> fst (getAssetStatusFromServer (mock_env 4 (queued_then_success 0)) (data asset_A1)
            (init None))
       = Inr (status_response (Some ''success''))"
  using getAssetStatusFromServer_throws_iff [of "mock_env 4 (queued_then_success 0)"
      "init None" "data asset_A1" "status_response (Some ''success'')"]
  by (simp add: mock_env_def queued_then_success_def status_of_def status_response_def)

text \<open>
  C3 as stated fails for a status that is present but empty: \<^verbatim>\<open>!status\<close> holds for the
  empty string, so the call throws although the status is neither missing nor
  \<open>queued\<close>.
\<close>

theorem empty_status_throws:
  "sendHttpRequest (mock_env 4 empty_status) (requests (init None))
      (poll_request (mock_env 4 empty_status) (data asset_A1) (init None))
     = Inr (status_response (Some ''''))
   \<and> fst (getAssetStatusFromServer (mock_env 4 empty_status) (data asset_A1) (init None))
       = Inl NotProcessedYet
   \<and> status_of (status_response (Some '''')) \<noteq> None
   \<and> status_of (status_response (Some '''')) \<noteq> Some ''queued''"
  by (simp add: getAssetStatusFromServer_def mock_env_def status_of_def status_response_def
      falsy_def init_def Let_def empty_status_def)

section \<open>The retry loop\<close>

declare retry.simps [simp del]

lemma after_requests_0: "after_requests en d 0 s = s"
  by (simp add: after_requests_def)

lemma after_requests_Suc:
  "after_requests en d (Suc m) s = after_requests en d m (after_request en d s)"
  by (simp add: after_requests_def after_request_def poll_request_def)

lemma requests_after_request: "requests (after_request en d s) = Suc (requests s)"
  by (simp add: after_request_def)

lemma attempt_fails:
  assumes "\<not> ready (sendHttpRequest en (requests s) (poll_request en d s))"
  shows "\<exists>e. getAssetStatusFromServer en d s = (Inl e, after_request en d s)"
proof -
  obtain e where "fst (getAssetStatusFromServer en d s) = Inl e"
    using fst_getAssetStatusFromServer_not_ready [OF assms] by blast
  then have "getAssetStatusFromServer en d s = (Inl e, after_request en d s)"
    using snd_getAssetStatusFromServer [of en d s] by (metis prod.collapse)
  then show ?thesis by blast
qed

lemma attempt_succeeds:
  assumes "ready (sendHttpRequest en (requests s) (poll_request en d s))"
  shows "\<exists>r. sendHttpRequest en (requests s) (poll_request en d s) = Inr r
             \<and> getAssetStatusFromServer en d s = (Inr r, after_request en d s)"
proof -
  obtain r where r: "sendHttpRequest en (requests s) (poll_request en d s) = Inr r"
    using assms by (auto simp add: ready_def split: sum.splits)
  have "fst (getAssetStatusFromServer en d s) = Inr r"
    using fst_getAssetStatusFromServer_ready [OF assms] r by simp
  then have "getAssetStatusFromServer en d s = (Inr r, after_request en d s)"
    using snd_getAssetStatusFromServer [of en d s] by (metis prod.collapse)
  with r show ?thesis by blast
qed

text \<open>When every attempt fails, the loop gives up after \<open>max 1 n\<close> attempts.\<close>

lemma retry_exhausted:
  "(\<And>k req. k < max 1 n \<Longrightarrow> \<not> ready (sendHttpRequest en (requests s + k) req)) \<Longrightarrow>
   \<exists>e. retry n (getAssetStatusFromServer en d) s = (Inl e, after_requests en d (max 1 n) s)"
proof (induction n arbitrary: s)
  case 0
  from 0 [of 0] obtain e where
    "getAssetStatusFromServer en d s = (Inl e, after_request en d s)"
    using attempt_fails [of en s d] by auto
  then show ?case
    by (simp add: after_requests_Suc after_requests_0 retry.simps [of 0])
next
  case (Suc n)
  from Suc.prems [of 0] obtain e where
    first: "getAssetStatusFromServer en d s = (Inl e, after_request en d s)"
    using attempt_fails [of en s d] by auto
  show ?case
  proof (cases "n = 0")
    case True
    with first show ?thesis
      by (simp add: after_requests_Suc after_requests_0 retry.simps [of "Suc 0"])
  next
    case False
    then have m: "max 1 (Suc n) = Suc (max 1 n)" by simp
    have "\<And>k req. k < max 1 n \<Longrightarrow>
        \<not> ready (sendHttpRequest en (requests (after_request en d s) + k) req)"
      using Suc.prems [of "Suc _"] m by (simp add: requests_after_request)
    from Suc.IH [OF this] obtain e' where
      "retry n (getAssetStatusFromServer en d) (after_request en d s)
         = (Inl e', after_requests en d (max 1 n) (after_request en d s))" by blast
    with first False show ?thesis
      by (simp add: m after_requests_Suc retry.simps [of "Suc n"])
  qed
qed

text \<open>
  When the first \<open>m\<close> attempts fail and attempt \<open>m + 1\<close>, still within the bound, is
  answered by a ready response, the loop returns that response after \<open>m + 1\<close> attempts.
\<close>

lemma retry_succeeds:
  "(\<And>k req. k < m \<Longrightarrow> \<not> ready (sendHttpRequest en (requests s + k) req)) \<Longrightarrow>
   (\<And>req. sendHttpRequest en (requests s + m) req = Inr r) \<Longrightarrow> ready (Inr r) \<Longrightarrow>
   m < max 1 n \<Longrightarrow>
   retry n (getAssetStatusFromServer en d) s = (Inr r, after_requests en d (Suc m) s)"
proof (induction m arbitrary: n s)
  case 0
  have "ready (sendHttpRequest en (requests s) (poll_request en d s))"
    using 0(2) [of "poll_request en d s"] 0(3) by simp
  from attempt_succeeds [OF this] 0(2) [of "poll_request en d s"]
  have "getAssetStatusFromServer en d s = (Inr r, after_request en d s)" by simp
  then show ?case
    by (simp add: after_requests_Suc after_requests_0 retry.simps [of n])
next
  case (Suc m)
  from Suc.prems(1) [of 0] obtain e where
    first: "getAssetStatusFromServer en d s = (Inl e, after_request en d s)"
    using attempt_fails [of en s d] by auto
  from Suc.prems(4) have n: "\<not> n \<le> 1" "m < max 1 (n - 1)" by auto
  have fails: "\<And>k req. k < m \<Longrightarrow>
      \<not> ready (sendHttpRequest en (requests (after_request en d s) + k) req)"
    using Suc.prems(1) [of "Suc _"] by (simp add: requests_after_request)
  have answer: "\<And>req. sendHttpRequest en (requests (after_request en d s) + m) req = Inr r"
    using Suc.prems(2) by (simp add: requests_after_request)
  from Suc.IH [OF fails answer Suc.prems(3) n(2)]
  have "retry (n - 1) (getAssetStatusFromServer en d) (after_request en d s)
          = (Inr r, after_requests en d (Suc m) (after_request en d s))" .
  with first n(1) show ?case
    by (simp add: after_requests_Suc retry.simps [of n])
qed

text \<open>Whatever the answers are, a retry loop makes between one and \<open>max 1 n\<close> attempts.\<close>

lemma retry_state:
  "\<exists>m. 1 \<le> m \<and> m \<le> max 1 n
       \<and> snd (retry n (getAssetStatusFromServer en d) s) = after_requests en d m s"
proof (induction n arbitrary: s)
  case 0
  obtain x where x: "getAssetStatusFromServer en d s = (x, after_request en d s)"
    using snd_getAssetStatusFromServer [of en d s] by (metis prod.collapse)
  then have "snd (retry 0 (getAssetStatusFromServer en d) s) = after_requests en d 1 s"
    by (simp add: retry.simps [of 0] after_requests_Suc after_requests_0 split: sum.splits)
  then show ?case by auto
next
  case (Suc n)
  obtain x where x: "getAssetStatusFromServer en d s = (x, after_request en d s)"
    using snd_getAssetStatusFromServer [of en d s] by (metis prod.collapse)
  show ?case
  proof (cases "(\<exists>r. x = Inr r) \<or> n = 0")
    case True
    then have "snd (retry (Suc n) (getAssetStatusFromServer en d) s) = after_requests en d 1 s"
      using x
      by (auto simp add: retry.simps [of "Suc n"] after_requests_Suc after_requests_0
          split: sum.splits)
    then show ?thesis by auto
  next
    case False
    then obtain e where e: "x = Inl e" and n: "n \<noteq> 0" by (cases x) auto
    from Suc.IH [of "after_request en d s"] obtain m where
      m: "1 \<le> m" "m \<le> max 1 n"
      "snd (retry n (getAssetStatusFromServer en d) (after_request en d s))
         = after_requests en d m (after_request en d s)" by blast
    have "snd (retry (Suc n) (getAssetStatusFromServer en d) s) = after_requests en d (Suc m) s"
      using x e n m(3) by (simp add: retry.simps [of "Suc n"] after_requests_Suc)
    moreover have "1 \<le> Suc m" "Suc m \<le> max 1 (Suc n)" using m n by auto
    ultimately show ?thesis by blast
  qed
qed

section \<open>Waiting for the asset\<close>

lemma http_requests_append: "http_requests (xs @ ys) = http_requests xs @ http_requests ys"
  by (induction xs rule: http_requests.induct) simp_all

lemma mounts_append: "mounts (xs @ ys) = mounts xs @ mounts ys"
  by (induction xs rule: mounts.induct) simp_all

lemma focus_calls_append: "focus_calls (xs @ ys) = focus_calls xs + focus_calls ys"
  by (induction xs rule: focus_calls.induct) simp_all

lemma insert_images_append: "insert_images (xs @ ys) = insert_images xs @ insert_images ys"
  by (induction xs rule: insert_images.induct) simp_all

lemma set_attributes_append:
  "set_attributes (xs @ ys) = set_attributes xs @ set_attributes ys"
  by (induction xs rule: set_attributes.induct) simp_all

lemma fired_append: "fired (xs @ ys) = fired xs @ fired ys"
  by (induction xs rule: fired.induct) simp_all

lemma poll_log_silent:
  "mounts (poll_log en d c m) = [] \<and> focus_calls (poll_log en d c m) = 0
   \<and> insert_images (poll_log en d c m) = [] \<and> set_attributes (poll_log en d c m) = []
   \<and> fired (poll_log en d c m) = []"
  by (induction m arbitrary: c) simp_all

lemma signals_poll_log: "map signal (http_requests (poll_log en d c m)) = [c..<c + m]"
  by (induction m arbitrary: c) (simp_all add: upt_rec)

lemma length_requests_poll_log: "length (http_requests (poll_log en d c m)) = m"
  using signals_poll_log [of en d c m] by (metis length_map length_upt add_diff_cancel_left')

lemma waitForAssetProcessed_state:
  "\<exists>m. 1 \<le> m \<and> m \<le> max 1 (maxAttempts en)
       \<and> snd (waitForAssetProcessed en a s) = after_requests en (data a) m s"
  using retry_state [of "maxAttempts en" en "data a" s]
  by (auto simp add: waitForAssetProcessed_def split: prod.splits sum.splits)

text \<open>
  C4. When the bounded retry is exhausted, that is, every one of the attempts it makes
  fails, \<^verbatim>\<open>_waitForAssetProcessed\<close> resolves with undefined. Its result type has no
  error. Its trace is that of the status requests and nothing else, so no event is
  fired and nothing else is told to anyone.
\<close>

theorem waitForAssetProcessed_swallows_exhaustion:
  assumes "\<forall>k < max 1 (maxAttempts en). \<forall>req.
             \<not> ready (sendHttpRequest en (requests s + k) req)"
  shows "fst (waitForAssetProcessed en a s) = None
     \<and> log (snd (waitForAssetProcessed en a s))
         = log s @ poll_log en (data a) (next_controller s) (max 1 (maxAttempts en))
     \<and> fired (log (snd (waitForAssetProcessed en a s))) = fired (log s)
     \<and> (\<forall>x \<in> set (poll_log en (data a) (next_controller s) (max 1 (maxAttempts en))).
           (\<exists>c. x = NewAbortController c) \<or> (\<exists>r. x = HttpRequest r))"
proof -
  obtain e where "retry (maxAttempts en) (getAssetStatusFromServer en (data a)) s
      = (Inl e, after_requests en (data a) (max 1 (maxAttempts en)) s)"
    using retry_exhausted [of "maxAttempts en" en s "data a"] assms by blast
  then have w: "waitForAssetProcessed en a s
      = (None, after_requests en (data a) (max 1 (maxAttempts en)) s)"
    by (simp add: waitForAssetProcessed_def)
  have only: "\<And>c m. \<forall>x \<in> set (poll_log en (data a) c m).
           (\<exists>c. x = NewAbortController c) \<or> (\<exists>r. x = HttpRequest r)"
  proof -
    fix c m show "\<forall>x \<in> set (poll_log en (data a) c m).
           (\<exists>c. x = NewAbortController c) \<or> (\<exists>r. x = HttpRequest r)"
      by (induction m arbitrary: c) auto
  qed
  from w only show ?thesis
    by (simp add: after_requests_def fired_append poll_log_silent)
qed

theorem waitForAssetProcessed_swallows_exhaustion_witness:
  "fst (waitForAssetProcessed (mock_env 4 always_queued) asset_A1 (init None)) = None
   \<and> fired (log (snd (waitForAssetProcessed (mock_env 4 always_queued) asset_A1 (init None))))
       = []
   \<and> length (http_requests
        (log (snd (waitForAssetProcessed (mock_env 4 always_queued) asset_A1 (init None))))) = 4"
proof -
  let ?en = "mock_env 4 always_queued"
  have h: "\<forall>k < max 1 (maxAttempts ?en). \<forall>req.
             \<not> ready (sendHttpRequest ?en (requests (init None) + k) req)"
    by (simp add: mock_env_def always_queued_def ready_def status_of_def status_response_def
        falsy_def)
  have m: "maxAttempts ?en = 4" by (simp add: mock_env_def)
  from waitForAssetProcessed_swallows_exhaustion [OF h, of asset_A1] show ?thesis
    by (simp add: m http_requests_append length_requests_poll_log poll_log_silent init_def)
qed

text \<open>
  C5. Against an endpoint that answers \<open>queued\<close> to every request, the wait returns
  (the loop is a total function of its bound), with undefined, after exactly as many
  status requests as the bound says, and after one when the bound is zero.
\<close>

theorem waitForAssetProcessed_always_queued_terminates:
  assumes "\<forall>k req. \<exists>q. sendHttpRequest en k req = Inr q \<and> status_of q = Some ''queued''"
  shows "\<exists>s'. waitForAssetProcessed en a s = (None, s')
     \<and> requests s' = requests s + max 1 (maxAttempts en)
     \<and> length (http_requests (log s'))
         = length (http_requests (log s)) + max 1 (maxAttempts en)
     \<and> (0 < maxAttempts en \<longrightarrow> requests s' = requests s + maxAttempts en)"
proof -
  have "\<And>k req. \<not> ready (sendHttpRequest en k req)"
  proof -
    fix k req
    from assms obtain q where "sendHttpRequest en k req = Inr q" "status_of q = Some ''queued''"
      by blast
    then show "\<not> ready (sendHttpRequest en k req)" by (simp add: ready_def)
  qed
  then obtain e where "retry (maxAttempts en) (getAssetStatusFromServer en (data a)) s
      = (Inl e, after_requests en (data a) (max 1 (maxAttempts en)) s)"
    using retry_exhausted [of "maxAttempts en" en s "data a"] by blast
  then have "waitForAssetProcessed en a s
      = (None, after_requests en (data a) (max 1 (maxAttempts en)) s)"
    by (simp add: waitForAssetProcessed_def)
  moreover have "0 < maxAttempts en \<longrightarrow> max 1 (maxAttempts en) = maxAttempts en" by auto
  ultimately show ?thesis
    by (simp add: after_requests_def http_requests_append length_requests_poll_log)
qed

theorem waitForAssetProcessed_always_queued_terminates_witness:
  "\<exists>s'. waitForAssetProcessed (mock_env 4 always_queued) asset_A1 (init None) = (None, s')
     \<and> requests s' = 4 \<and> length (http_requests (log s')) = 4"
proof -
  let ?en = "mock_env 4 always_queued"
  have h: "\<forall>k req. \<exists>q. sendHttpRequest ?en k req = Inr q \<and> status_of q = Some ''queued''"
    by (simp add: mock_env_def always_queued_def status_of_def status_response_def)
  have m: "maxAttempts ?en = 4" by (simp add: mock_env_def)
  from waitForAssetProcessed_always_queued_terminates [OF h, of asset_A1 "init None"]
  show ?thesis by (auto simp add: m init_def)
qed

section \<open>Events\<close>

text \<open>The status request and its two halves.\<close>

lemma send_status_request_eq:
  "send_status_request en d s
     = (sendHttpRequest en (requests s) (poll_request en d s), after_request en d s)"
  by (simp add: send_status_request_def poll_request_def after_request_def Let_def)

lemma getAssetStatusFromServer_split:
  "getAssetStatusFromServer en d s
     = (check_status (fst (send_status_request en d s)), snd (send_status_request en d s))"
  by (simp add: getAssetStatusFromServer_def send_status_request_def check_status_def Let_def
      split: sum.splits option.splits)

lemma check_status_ready: "ready reply \<Longrightarrow> check_status reply = reply"
  by (auto simp add: ready_def check_status_def status_of_def falsy_def Let_def
      split: sum.splits option.splits)

lemma check_status_not_ready: "\<not> ready reply \<Longrightarrow> \<exists>e. check_status reply = Inl e"
  by (auto simp add: ready_def check_status_def status_of_def Let_def
      split: sum.splits option.splits)

lemma ready_iff_check_status: "ready reply \<longleftrightarrow> (\<exists>r. check_status reply = Inr r)"
proof
  assume "ready reply"
  then show "\<exists>r. check_status reply = Inr r"
    using check_status_ready [of reply] by (cases reply) (auto simp add: ready_def)
next
  assume r: "\<exists>r. check_status reply = Inr r"
  show "ready reply"
  proof (rule ccontr)
    assume "\<not> ready reply"
    from check_status_not_ready [OF this] r show False by auto
  qed
qed

lemma refresh_frame:
  "wrapper (refresh s) = wrapper s \<and> body (refresh s) = body s \<and> log (refresh s) = log s
   \<and> pending (refresh s) = pending s \<and> selection (refresh s) = selection s
   \<and> controller (refresh s) = controller s \<and> next_controller (refresh s) = next_controller s
   \<and> next_element (refresh s) = next_element s \<and> requests (refresh s) = requests s
   \<and> cmd_value (refresh s) = (wrapper s \<noteq> None)"
  by (simp add: refresh_def getValue_def Let_def)

lemma refresh_log_update: "refresh (s\<lparr>log := l\<rparr>) = (refresh s)\<lparr>log := l\<rparr>"
  by (simp add: refresh_def getValue_def Let_def)

lemma refresh_pending_update: "refresh (s\<lparr>pending := p\<rparr>) = (refresh s)\<lparr>pending := p\<rparr>"
  by (simp add: refresh_def getValue_def Let_def)

lemma refresh_after_request: "refresh (after_request en d s) = after_request en d (refresh s)"
  by (simp add: refresh_def getValue_def after_request_def poll_request_def Let_def)

lemma refresh_idem: "refresh (refresh s) = refresh s"
  by (simp add: refresh_def getValue_def Let_def)

lemma fire_controller: "controller (fire en ev s) = controller s"
  by (cases ev)
     (simp_all add: fire_def refresh_frame open_handler_def close_handler_def save_handler_def
       processed_handler_def send_status_request_def Let_def split: option.splits)

lemma fire_Processed:
  "log (fire en (Processed a) s)
     = log s @ [Fired (Processed a),
                InsertImage (image_source_of (prepareImageAssetAttributes en a)),
                SetAttribute ''ckboxImageId'' (asset_id (data a))]
   \<and> wrapper (fire en (Processed a) s) = wrapper s \<and> body (fire en (Processed a) s) = body s
   \<and> pending (fire en (Processed a) s) = pending s
   \<and> next_controller (fire en (Processed a) s) = next_controller s
   \<and> requests (fire en (Processed a) s) = requests s
   \<and> cmd_value (fire en (Processed a) s) = (wrapper s \<noteq> None)"
  by (simp add: fire_def refresh_frame processed_handler_def Let_def)

text \<open>The save event: the first status request is under way when the listener returns.\<close>

lemma fire_Save:
  "fire en (Save a) s
     = (after_request en (data a) (refresh (s\<lparr>log := log s @ [Fired (Save a)]\<rparr>)))
         \<lparr>pending := pending s
            @ [\<lparr> p_asset = a, p_left = maxAttempts en,
                 p_reply = Some (sendHttpRequest en (requests s)
                                   (poll_request en (data a) s)) \<rparr>]\<rparr>"
  by (simp add: fire_def save_handler_def send_status_request_eq refresh_pending_update
      refresh_after_request)
     (simp add: after_request_def poll_request_def refresh_frame)

lemma fire_Save_frame:
  "log (fire en (Save a) s)
     = log s @ [Fired (Save a), NewAbortController (next_controller s),
                HttpRequest (poll_request en (data a) s)]
   \<and> wrapper (fire en (Save a) s) = wrapper s \<and> body (fire en (Save a) s) = body s
   \<and> next_controller (fire en (Save a) s) = Suc (next_controller s)
   \<and> requests (fire en (Save a) s) = Suc (requests s)
   \<and> cmd_value (fire en (Save a) s) = (wrapper s \<noteq> None)"
  by (simp add: fire_Save after_request_def refresh_frame poll_request_def)

lemma fire_Close:
  "log (fire en Close s) = log s @ Fired Close # (if wrapper s = None then [] else [Focus])
   \<and> wrapper (fire en Close s) = None
   \<and> body (fire en Close s)
       = (case wrapper s of None \<Rightarrow> body s | Some w \<Rightarrow> removeAll w (body s))
   \<and> pending (fire en Close s) = pending s
   \<and> selection (fire en Close s) = selection s
   \<and> next_controller (fire en Close s) = next_controller s
   \<and> requests (fire en Close s) = requests s
   \<and> cmd_value (fire en Close s) = False"
  by (simp add: fire_def refresh_frame close_handler_def split: option.splits)

lemma fire_Open_blocked:
  "\<not> isEnabled s \<or> wrapper s \<noteq> None \<Longrightarrow>
   fire en Open s = refresh (s\<lparr>log := log s @ [Fired Open]\<rparr>)"
  by (simp add: fire_def open_handler_def getValue_def)

lemma fire_Open_mounts:
  "isEnabled s \<Longrightarrow> wrapper s = None \<Longrightarrow>
   log (fire en Open s)
     = log s @ [Fired Open, MountImageEditor (next_element s) (ckboxImageId s) (tokenUrl en)]
   \<and> wrapper (fire en Open s) = Some (next_element s)
   \<and> body (fire en Open s) = body s @ [next_element s]
   \<and> pending (fire en Open s) = pending s
   \<and> next_controller (fire en Open s) = next_controller s
   \<and> cmd_value (fire en Open s) = True"
  by (simp add: fire_def open_handler_def getValue_def refresh_frame Let_def)

section \<open>Tasks of a poll sequence\<close>

lemma resume_send:
  "i < length (pending s) \<Longrightarrow> p_reply (pending s ! i) = None \<Longrightarrow>
   resume en i s
     = (after_request en (data (p_asset (pending s ! i))) s)
         \<lparr>pending := (pending s)
            [i := (pending s ! i)
               \<lparr>p_reply := Some (sendHttpRequest en (requests s)
                   (poll_request en (data (p_asset (pending s ! i))) s))\<rparr>]\<rparr>"
  by (simp add: resume_def send_status_request_eq Let_def)
     (simp add: after_request_def)

lemma resume_finish:
  "i < length (pending s) \<Longrightarrow> p_reply (pending s ! i) = Some reply \<Longrightarrow>
   ready reply \<or> p_left (pending s ! i) \<le> 1 \<Longrightarrow>
   resume en i s
     = fire en (Processed (p_asset (pending s ! i)))
         (s\<lparr>pending := take i (pending s) @ drop (Suc i) (pending s)\<rparr>)"
  using check_status_not_ready [of reply]
  by (auto simp add: resume_def Let_def ready_iff_check_status split: sum.splits)

lemma resume_delay:
  "i < length (pending s) \<Longrightarrow> p_reply (pending s ! i) = Some reply \<Longrightarrow>
   \<not> ready reply \<Longrightarrow> \<not> p_left (pending s ! i) \<le> 1 \<Longrightarrow>
   resume en i s
     = s\<lparr>pending := (pending s)
           [i := (pending s ! i)\<lparr>p_left := p_left (pending s ! i) - 1, p_reply := None\<rparr>]\<rparr>"
  using check_status_not_ready [of reply]
  by (auto simp add: resume_def Let_def ready_iff_check_status split: sum.splits)

lemma resume_cases:
  "resume en i s = s
   \<or> (\<exists>ps. resume en i s = s\<lparr>pending := ps\<rparr>)
   \<or> (\<exists>ps d. resume en i s = (after_request en d s)\<lparr>pending := ps\<rparr>)
   \<or> (\<exists>a ps. resume en i s = fire en (Processed a) (s\<lparr>pending := ps\<rparr>))"
proof (cases "i < length (pending s)")
  case False
  then show ?thesis by (simp add: resume_def)
next
  case True
  show ?thesis
  proof (cases "p_reply (pending s ! i)")
    case None
    from resume_send [OF True None, of en] show ?thesis by blast
  next
    case (Some reply)
    show ?thesis
    proof (cases "ready reply \<or> p_left (pending s ! i) \<le> 1")
      case True
      from resume_finish [OF \<open>i < length (pending s)\<close> Some True, of en] show ?thesis by blast
    next
      case False
      then have "\<not> ready reply" "\<not> p_left (pending s ! i) \<le> 1" by auto
      from resume_delay [OF \<open>i < length (pending s)\<close> Some this, of en] show ?thesis by blast
    qed
  qed
qed

lemma run_replicate_Suc:
  "run en (replicate (Suc k) a) s = run en (replicate k a) (step en a s)"
  by simp

lemma after_requests_pending:
  "after_requests en d m (s\<lparr>pending := p\<rparr>) = (after_requests en d m s)\<lparr>pending := p\<rparr>"
  by (simp add: after_requests_def)

lemma after_request_pending:
  "after_request en d (s\<lparr>pending := p\<rparr>) = (after_request en d s)\<lparr>pending := p\<rparr>"
  by (simp add: after_request_def poll_request_def)

text \<open>
  A pending poll sequence settles: left to itself it reaches, after finitely many of
  its tasks and finitely many further status requests, the task that fires the
  processed event with the asset of its save event.
\<close>

lemma poll_settles:
  "i < length (pending t) \<Longrightarrow>
   \<exists>k m. run en (replicate k (Resume i)) t
      = fire en (Processed (p_asset (pending t ! i)))
          ((after_requests en (data (p_asset (pending t ! i))) m t)
             \<lparr>pending := take i (pending t) @ drop (Suc i) (pending t)\<rparr>)"
proof (induction "2 * p_left (pending t ! i) + (if p_reply (pending t ! i) = None then 1 else 0)"
    arbitrary: t rule: less_induct)
  case less
  let ?p = "pending t ! i"
  let ?d = "data (p_asset ?p)"
  note i = \<open>i < length (pending t)\<close>
  show ?case
  proof (cases "p_reply ?p")
    case None
    let ?t1 = "resume en i t"
    have t1: "?t1 = (after_request en ?d t)
         \<lparr>pending := (pending t)
            [i := ?p\<lparr>p_reply := Some (sendHttpRequest en (requests t)
                                         (poll_request en ?d t))\<rparr>]\<rparr>"
      using resume_send [OF i None, of en] .
    have p1: "i < length (pending ?t1)"
      "pending ?t1 ! i = ?p\<lparr>p_reply := Some (sendHttpRequest en (requests t)
                                         (poll_request en ?d t))\<rparr>"
      using i by (simp_all add: t1)
    have "2 * p_left (pending ?t1 ! i) + (if p_reply (pending ?t1 ! i) = None then 1 else 0)
        < 2 * p_left ?p + (if p_reply ?p = None then 1 else 0)"
      using None by (simp add: p1(2))
    from less(1) [OF this p1(1)] obtain k m where
      "run en (replicate k (Resume i)) ?t1
         = fire en (Processed (p_asset (pending ?t1 ! i)))
             ((after_requests en (data (p_asset (pending ?t1 ! i))) m ?t1)
                \<lparr>pending := take i (pending ?t1) @ drop (Suc i) (pending ?t1)\<rparr>)" by blast
    then have "run en (replicate (Suc k) (Resume i)) t
         = fire en (Processed (p_asset ?p))
             ((after_requests en ?d (Suc m) t)
                \<lparr>pending := take i (pending t) @ drop (Suc i) (pending t)\<rparr>)"
      unfolding p1(2) run_replicate_Suc step.simps
      by (simp add: t1 after_requests_pending after_requests_Suc)
    then show ?thesis by blast
  next
    case (Some reply)
    show ?thesis
    proof (cases "ready reply \<or> p_left ?p \<le> 1")
      case True
      from resume_finish [OF i Some True, of en]
      have "run en (replicate (Suc 0) (Resume i)) t
         = fire en (Processed (p_asset ?p))
             ((after_requests en ?d 0 t)
                \<lparr>pending := take i (pending t) @ drop (Suc i) (pending t)\<rparr>)"
        by (simp add: after_requests_0)
      then show ?thesis by blast
    next
      case False
      then have f: "\<not> ready reply" "\<not> p_left ?p \<le> 1" by auto
      let ?t1 = "resume en i t"
      have t1: "?t1 = t\<lparr>pending := (pending t)
           [i := ?p\<lparr>p_left := p_left ?p - 1, p_reply := None\<rparr>]\<rparr>"
        using resume_delay [OF i Some f, of en] .
      have p1: "i < length (pending ?t1)"
        "pending ?t1 ! i = ?p\<lparr>p_left := p_left ?p - 1, p_reply := None\<rparr>"
        using i by (simp_all add: t1)
      have "2 * p_left (pending ?t1 ! i) + (if p_reply (pending ?t1 ! i) = None then 1 else 0)
          < 2 * p_left ?p + (if p_reply ?p = None then 1 else 0)"
        using Some f(2) by (simp add: p1(2))
      from less(1) [OF this p1(1)] obtain k m where
        "run en (replicate k (Resume i)) ?t1
           = fire en (Processed (p_asset (pending ?t1 ! i)))
               ((after_requests en (data (p_asset (pending ?t1 ! i))) m ?t1)
                  \<lparr>pending := take i (pending ?t1) @ drop (Suc i) (pending ?t1)\<rparr>)" by blast
      then have "run en (replicate (Suc k) (Resume i)) t
           = fire en (Processed (p_asset ?p))
               ((after_requests en ?d m t)
                  \<lparr>pending := take i (pending t) @ drop (Suc i) (pending t)\<rparr>)"
        unfolding p1(2) run_replicate_Suc step.simps
        by (simp add: t1 after_requests_pending)
      then show ?thesis by blast
    qed
  qed
qed

text \<open>
  The tasks of a poll sequence are the retry loop, cut at its suspension points: with
  the answer to the first request under way and nothing else happening in between,
  they end in the processed event being fired in the state in which the loop ends.
\<close>

lemma poll_request_pending: "poll_request en d (s\<lparr>pending := p\<rparr>) = poll_request en d s"
  by (simp add: poll_request_def)

lemma resume_retry:
  "i < length ps \<Longrightarrow>
   ps ! i = \<lparr> p_asset = a, p_left = n,
              p_reply = Some (sendHttpRequest en (requests s0) (poll_request en (data a) s0)) \<rparr>
   \<Longrightarrow>
   \<exists>k. run en (replicate k (Resume i)) ((after_request en (data a) s0)\<lparr>pending := ps\<rparr>)
      = fire en (Processed a)
          ((snd (retry n (getAssetStatusFromServer en (data a)) s0))
             \<lparr>pending := take i ps @ drop (Suc i) ps\<rparr>)"
proof (induction n arbitrary: s0 ps)
  case 0
  let ?reply = "sendHttpRequest en (requests s0) (poll_request en (data a) s0)"
  let ?t = "(after_request en (data a) s0)\<lparr>pending := ps\<rparr>"
  have p: "i < length (pending ?t)" "p_reply (pending ?t ! i) = Some ?reply"
    "ready ?reply \<or> p_left (pending ?t ! i) \<le> 1" "p_asset (pending ?t ! i) = a"
    using 0 by simp_all
  have "snd (retry 0 (getAssetStatusFromServer en (data a)) s0) = after_request en (data a) s0"
    using snd_getAssetStatusFromServer [of en "data a" s0]
    by (simp add: retry.simps [of 0] split: prod.splits sum.splits)
       (metis snd_conv)
  with resume_finish [OF p(1,2,3), of en] p(4)
  have "run en (replicate (Suc 0) (Resume i)) ?t
      = fire en (Processed a)
          ((snd (retry 0 (getAssetStatusFromServer en (data a)) s0))
             \<lparr>pending := take i ps @ drop (Suc i) ps\<rparr>)" by simp
  then show ?case by blast
next
  case (Suc n)
  let ?d = "data a"
  let ?reply = "sendHttpRequest en (requests s0) (poll_request en ?d s0)"
  let ?t = "(after_request en ?d s0)\<lparr>pending := ps\<rparr>"
  have p: "i < length (pending ?t)" "p_reply (pending ?t ! i) = Some ?reply"
    "p_asset (pending ?t ! i) = a" "p_left (pending ?t ! i) = Suc n"
    using Suc.prems by simp_all
  show ?case
  proof (cases "ready ?reply \<or> n = 0")
    case True
    then have fin: "ready ?reply \<or> p_left (pending ?t ! i) \<le> 1" using p(4) by auto
    have "snd (retry (Suc n) (getAssetStatusFromServer en ?d) s0) = after_request en ?d s0"
    proof (cases "ready ?reply")
      case True
      from attempt_succeeds [OF this] show ?thesis
        by (auto simp add: retry.simps [of "Suc n"])
    next
      case False
      with True have n: "n = 0" by simp
      from attempt_fails [OF False] obtain e where
        "getAssetStatusFromServer en ?d s0 = (Inl e, after_request en ?d s0)" by blast
      then show ?thesis by (simp add: n retry.simps [of "Suc 0"])
    qed
    with resume_finish [OF p(1,2) fin, of en] p(3)
    have "run en (replicate (Suc 0) (Resume i)) ?t
        = fire en (Processed a)
            ((snd (retry (Suc n) (getAssetStatusFromServer en ?d) s0))
               \<lparr>pending := take i ps @ drop (Suc i) ps\<rparr>)" by simp
    then show ?thesis by blast
  next
    case False
    then have f: "\<not> ready ?reply" "\<not> p_left (pending ?t ! i) \<le> 1" "n \<noteq> 0"
      using p(4) by auto
    let ?s1 = "after_request en ?d s0"
    let ?ps1 = "ps[i := \<lparr> p_asset = a, p_left = n, p_reply = None \<rparr>]"
    let ?reply1 = "sendHttpRequest en (requests ?s1) (poll_request en ?d ?s1)"
    let ?ps2 = "ps[i := \<lparr> p_asset = a, p_left = n, p_reply = Some ?reply1 \<rparr>]"
    have r1: "resume en i ?t = ?s1\<lparr>pending := ?ps1\<rparr>"
      using resume_delay [OF p(1,2) f(1,2), of en] Suc.prems by simp
    have q: "i < length (pending (?s1\<lparr>pending := ?ps1\<rparr>))"
      "p_reply (pending (?s1\<lparr>pending := ?ps1\<rparr>) ! i) = None"
      using Suc.prems(1) by simp_all
    have r2: "resume en i (?s1\<lparr>pending := ?ps1\<rparr>)
        = (after_request en ?d ?s1)\<lparr>pending := ?ps2\<rparr>"
      using resume_send [OF q, of en] Suc.prems(1)
      by (simp add: after_request_pending poll_request_pending)
    have "i < length ?ps2" "?ps2 ! i = \<lparr> p_asset = a, p_left = n, p_reply = Some ?reply1 \<rparr>"
      using Suc.prems(1) by simp_all
    from Suc.IH [OF this] obtain k where
      k: "run en (replicate k (Resume i)) ((after_request en ?d ?s1)\<lparr>pending := ?ps2\<rparr>)
        = fire en (Processed a)
            ((snd (retry n (getAssetStatusFromServer en ?d) ?s1))
               \<lparr>pending := take i ?ps2 @ drop (Suc i) ?ps2\<rparr>)" by blast
    have "retry (Suc n) (getAssetStatusFromServer en ?d) s0
        = retry n (getAssetStatusFromServer en ?d) ?s1"
      using attempt_fails [OF f(1)] f(3) by (auto simp add: retry.simps [of "Suc n"])
    with k r1 r2
    have "run en (replicate (Suc (Suc k)) (Resume i)) ?t
        = fire en (Processed a)
            ((snd (retry (Suc n) (getAssetStatusFromServer en ?d) s0))
               \<lparr>pending := take i ps @ drop (Suc i) ps\<rparr>)"
      by simp
    then show ?thesis by blast
  qed
qed

lemma snd_waitForAssetProcessed:
  "snd (waitForAssetProcessed en a s)
     = snd (retry (maxAttempts en) (getAssetStatusFromServer en (data a)) s)"
  by (simp add: waitForAssetProcessed_def split: prod.splits sum.splits)

lemma save_then_poll:
  "\<exists>k. run en (Fire (Save a) # replicate k (Resume (length (pending s)))) s
      = fire en (Processed a)
          ((snd (waitForAssetProcessed en a (refresh (s\<lparr>log := log s @ [Fired (Save a)]\<rparr>))))
             \<lparr>pending := pending s\<rparr>)"
proof -
  let ?s0 = "refresh (s\<lparr>log := log s @ [Fired (Save a)]\<rparr>)"
  let ?p0 = "\<lparr> p_asset = a, p_left = maxAttempts en,
       p_reply = Some (sendHttpRequest en (requests ?s0) (poll_request en (data a) ?s0)) \<rparr>"
  let ?ps = "pending s @ [?p0]"
  have start: "fire en (Save a) s = (after_request en (data a) ?s0)\<lparr>pending := ?ps\<rparr>"
    by (simp add: fire_Save refresh_frame poll_request_def)
  have "length (pending s) < length ?ps" "?ps ! length (pending s) = ?p0" by simp_all
  from resume_retry [OF this] obtain k where
    "run en (replicate k (Resume (length (pending s))))
        ((after_request en (data a) ?s0)\<lparr>pending := ?ps\<rparr>)
      = fire en (Processed a)
          ((snd (retry (maxAttempts en) (getAssetStatusFromServer en (data a)) ?s0))
             \<lparr>pending := take (length (pending s)) ?ps @ drop (Suc (length (pending s))) ?ps\<rparr>)"
    by blast
  then have "run en (Fire (Save a) # replicate k (Resume (length (pending s)))) s
      = fire en (Processed a)
          ((snd (waitForAssetProcessed en a ?s0))\<lparr>pending := pending s\<rparr>)"
    by (simp add: start snd_waitForAssetProcessed)
  then show ?thesis by blast
qed

section \<open>One session at a time\<close>

lemma session_inv_init: "session_inv (init sel)"
  by (simp add: session_inv_def init_def)

lemma session_inv_refresh: "session_inv s \<Longrightarrow> session_inv (refresh s)"
  by (simp add: session_inv_def refresh_frame)

lemma session_inv_pending: "session_inv (s\<lparr>pending := p\<rparr>) = session_inv s"
  by (simp add: session_inv_def)

lemma session_inv_after_request: "session_inv (after_request en d s) = session_inv s"
  by (simp add: session_inv_def after_request_def mounts_append focus_calls_append)

lemma session_inv_fire: "session_inv s \<Longrightarrow> session_inv (fire en ev s)"
proof (cases ev)
  case Open
  assume inv: "session_inv s"
  show ?thesis
  proof (cases "isEnabled s \<and> wrapper s = None")
    case True
    with inv Open show ?thesis
      using fire_Open_mounts [of s en]
      by (simp add: session_inv_def mounts_append focus_calls_append)
  next
    case False
    then have "fire en Open s = refresh (s\<lparr>log := log s @ [Fired Open]\<rparr>)"
      using fire_Open_blocked [of s en] by blast
    with inv Open show ?thesis
      by (simp add: session_inv_def refresh_frame mounts_append focus_calls_append)
  qed
next
  case Close
  assume "session_inv s"
  with Close show ?thesis
    using fire_Close [of en s]
    by (auto simp add: session_inv_def mounts_append focus_calls_append split: option.splits)
next
  case (Save a)
  assume "session_inv s"
  with Save show ?thesis
    using fire_Save_frame [of en a s]
    by (simp add: session_inv_def mounts_append focus_calls_append)
next
  case (Processed a)
  assume "session_inv s"
  with Processed show ?thesis
    using fire_Processed [of en a s]
    by (simp add: session_inv_def mounts_append focus_calls_append)
qed

lemma session_inv_resume: "session_inv s \<Longrightarrow> session_inv (resume en i s)"
  using resume_cases [of en i s] session_inv_fire [of _ en]
  by (auto simp add: session_inv_pending session_inv_after_request)

lemma session_inv_step: "session_inv s \<Longrightarrow> session_inv (step en a s)"
proof (cases a)
  case (Change sel)
  assume "session_inv s"
  then have "session_inv (s\<lparr>selection := sel\<rparr>)" by (simp add: session_inv_def)
  with Change show ?thesis by (simp add: session_inv_refresh)
qed (simp_all add: execute_def session_inv_fire session_inv_resume)

lemma session_inv_run: "session_inv s \<Longrightarrow> session_inv (run en as s)"
  by (induction as arbitrary: s) (simp_all add: session_inv_step)

lemma open_A1_eq:
  "open_A1 = \<lparr> cmd_value = True, isEnabled = True, wrapper = Some 0,
       ckboxImageId = Some ''A1'', controller = 0, selection = Some image_A1, body = [0],
       next_element = 1, next_controller = 1, requests = 0, pending = [],
       log = [NewAbortController 0, Fired Open,
              MountImageEditor 0 (Some ''A1'') ''https://example.com/token''] \<rparr>"
  by (simp add: open_A1_def execute_def fire_def refresh_def open_handler_def getValue_def
      init_def isImageElement_def hasCkboxImageId_def getAttribute_def image_A1_def
      mock_env_def Let_def)

text \<open>
  C7. In every state in which the command is disabled or the dialog is open (the mount
  point is non-null), the listener of the open event leaves the state as it is, so
  firing the event comes down to recording it and to the refresh that follows every
  event: the mount point, the body and the mounts of the image editor are the same
  afterwards, and a state that is up to date with the selection is unchanged apart
  from the recorded event. In every state reached from the constructor by any
  sequence of tasks the session invariant holds: the body holds at most one mount
  point, the one of the open session, and each session has mounted exactly once.
\<close>

theorem open_is_guarded:
  "((\<not> isEnabled s \<or> wrapper s \<noteq> None) \<longrightarrow>
       open_handler en s = s
     \<and> fire en Open s = refresh (s\<lparr>log := log s @ [Fired Open]\<rparr>)
     \<and> wrapper (fire en Open s) = wrapper s
     \<and> body (fire en Open s) = body s
     \<and> mounts (log (fire en Open s)) = mounts (log s)
     \<and> next_element (fire en Open s) = next_element s
     \<and> (refresh s = s \<longrightarrow> fire en Open s = s\<lparr>log := log s @ [Fired Open]\<rparr>))
   \<and> session_inv (run en as (init sel))
   \<and> length (body (run en as (init sel))) \<le> 1"
proof -
  have blocked: "fire en Open s = refresh (s\<lparr>log := log s @ [Fired Open]\<rparr>)"
      "open_handler en s = s"
    if "\<not> isEnabled s \<or> wrapper s \<noteq> None"
    using that fire_Open_blocked [of s en] by (auto simp add: open_handler_def getValue_def)
  have inv: "session_inv (run en as (init sel))"
    by (simp add: session_inv_run session_inv_init)
  then have "length (body (run en as (init sel))) \<le> 1"
    by (simp add: session_inv_def split: option.splits)
  with inv blocked show ?thesis
    by (auto simp add: refresh_frame refresh_log_update mounts_append)
qed

theorem open_is_guarded_witness:
  "wrapper open_A1 = Some 0
   \<and> fire (mock_env 4 always_queued) Open open_A1 = open_A1\<lparr>log := log open_A1 @ [Fired Open]\<rparr>
   \<and> body (fire (mock_env 4 always_queued) Open open_A1) = [0]
   \<and> mounts (log (fire (mock_env 4 always_queued) Open open_A1)) = [0]
   \<and> \<not> isEnabled (init None)
   \<and> body (fire (mock_env 4 always_queued) Open (init None)) = []
   \<and> mounts (log (fire (mock_env 4 always_queued) Open (init None))) = []"
proof -
  let ?en = "mock_env 4 always_queued"
  have a: "\<not> isEnabled open_A1 \<or> wrapper open_A1 \<noteq> None" by (simp add: open_A1_eq)
  have b: "refresh open_A1 = open_A1"
    by (simp add: open_A1_eq refresh_def getValue_def isImageElement_def hasCkboxImageId_def
        getAttribute_def image_A1_def Let_def)
  have c: "\<not> isEnabled (init None) \<or> wrapper (init None) \<noteq> None"
    by (simp add: init_def)
  from open_is_guarded [of open_A1 ?en "[]" None] a b
  have 1: "fire ?en Open open_A1 = open_A1\<lparr>log := log open_A1 @ [Fired Open]\<rparr>"
    "body (fire ?en Open open_A1) = body open_A1"
    "mounts (log (fire ?en Open open_A1)) = mounts (log open_A1)" by blast+
  from open_is_guarded [of "init None" ?en "[]" None] c
  have 2: "body (fire ?en Open (init None)) = body (init None)"
    "mounts (log (fire ?en Open (init None))) = mounts (log (init None))" by blast+
  have 3: "wrapper open_A1 = Some 0" "body open_A1 = [0]" "mounts (log open_A1) = [0]"
    by (simp_all add: open_A1_eq)
  have 4: "\<not> isEnabled (init None)" "body (init None) = []" "mounts (log (init None)) = []"
    by (simp_all add: init_def)
  from 1 2 3 4 show ?thesis by simp
qed

section \<open>Closing the dialog\<close>

lemma close_handler_idem: "close_handler (close_handler s) = close_handler s"
  by (simp add: close_handler_def split: option.splits)

lemma fire_Close_closed:
  "wrapper s = None \<Longrightarrow> fire en Close s = refresh (s\<lparr>log := log s @ [Fired Close]\<rparr>)"
  by (simp add: fire_def close_handler_def)

text \<open>
  C8, as the code has it. From every starting state the close event clears the mount
  point and the \<open>value\<close> flag and removes the mount point from the body. The cached
  target id is not cleared: the listener does not touch it, and the refresh that
  follows sets it from the current selection, to the id of the selected image if
  there is one. A second close only records its event: the listener is idempotent.
  No insert-image operation is triggered, and the focus call is made exactly once if
  a mount point was present and not at all otherwise.
\<close>

theorem close_clears_mount_point:
  "wrapper (fire en Close s) = None
   \<and> \<not> cmd_value (fire en Close s)
   \<and> body (fire en Close s)
       = (case wrapper s of None \<Rightarrow> body s | Some w \<Rightarrow> removeAll w (body s))
   \<and> ckboxImageId (close_handler s) = ckboxImageId s
   \<and> ckboxImageId (fire en Close s)
       = (if isImageElement (selection s) \<and> hasCkboxImageId (selection s)
          then getAttribute (selection s) ''ckboxImageId'' else None)
   \<and> close_handler (close_handler s) = close_handler s
   \<and> fire en Close (fire en Close s)
       = (fire en Close s)\<lparr>log := log (fire en Close s) @ [Fired Close]\<rparr>
   \<and> insert_images (log (fire en Close s)) = insert_images (log s)
   \<and> focus_calls (log (fire en Close s))
       = focus_calls (log s) + (if wrapper s = None then 0 else 1)"
proof -
  have target: "ckboxImageId (fire en Close s)
       = (if isImageElement (selection s) \<and> hasCkboxImageId (selection s)
          then getAttribute (selection s) ''ckboxImageId'' else None)"
    by (auto simp add: fire_def refresh_def close_handler_def Let_def split: option.splits)
  have untouched: "ckboxImageId (close_handler s) = ckboxImageId s"
    by (simp add: close_handler_def split: option.splits)
  have "fire en Close (fire en Close s)
       = refresh ((fire en Close s)\<lparr>log := log (fire en Close s) @ [Fired Close]\<rparr>)"
    using fire_Close [of en s] fire_Close_closed [of "fire en Close s" en] by simp
  also have "\<dots> = (refresh (fire en Close s))\<lparr>log := log (fire en Close s) @ [Fired Close]\<rparr>"
    by (simp add: refresh_log_update)
  also have "refresh (fire en Close s) = fire en Close s"
    by (simp add: fire_def refresh_idem)
  finally have twice: "fire en Close (fire en Close s)
       = (fire en Close s)\<lparr>log := log (fire en Close s) @ [Fired Close]\<rparr>" .
  from target untouched twice fire_Close [of en s] show ?thesis
    by (simp add: close_handler_idem insert_images_append focus_calls_append)
qed

theorem close_clears_mount_point_witness:
  "wrapper (fire (mock_env 4 always_queued) Close open_A1) = None
   \<and> body (fire (mock_env 4 always_queued) Close open_A1) = []
   \<and> focus_calls (log (fire (mock_env 4 always_queued) Close open_A1)) = 1
   \<and> insert_images (log (fire (mock_env 4 always_queued) Close open_A1)) = []
   \<and> focus_calls (log (fire (mock_env 4 always_queued) Close (init None))) = 0"
  using close_clears_mount_point [of "mock_env 4 always_queued" open_A1]
    close_clears_mount_point [of "mock_env 4 always_queued" "init None"]
  by (simp add: open_A1_eq) (simp add: init_def)

text \<open>
  C8 as stated fails on the cached target id: closing the dialog that was opened on
  the selected image \<open>A1\<close> leaves the target id at \<open>A1\<close>, since the image is still
  selected.
\<close>

theorem close_keeps_target_id:
  "wrapper open_A1 = Some 0
   \<and> wrapper (fire (mock_env 4 always_queued) Close open_A1) = None
   \<and> ckboxImageId (close_handler open_A1) = Some ''A1''
   \<and> ckboxImageId (fire (mock_env 4 always_queued) Close open_A1) = Some ''A1''"
  by (simp add: open_A1_eq fire_def refresh_def close_handler_def getValue_def
      isImageElement_def hasCkboxImageId_def getAttribute_def image_A1_def Let_def)

section \<open>Cancellation tokens\<close>

lemma request_signals_pending: "request_signals (s\<lparr>pending := p\<rparr>) = request_signals s"
  by (simp add: request_signals_def)

lemma request_signals_after_request:
  "request_signals (after_request en d s) = request_signals s @ [next_controller s]"
  by (simp add: request_signals_def after_request_def http_requests_append poll_request_def)

lemma fire_signals:
  "request_signals (fire en ev s)
     = request_signals s @ (case ev of Save a \<Rightarrow> [next_controller s] | _ \<Rightarrow> [])
   \<and> next_controller (fire en ev s)
     = next_controller s + (case ev of Save a \<Rightarrow> 1 | _ \<Rightarrow> 0)"
proof (cases ev)
  case Open
  then show ?thesis
    by (simp add: request_signals_def fire_def refresh_frame open_handler_def Let_def
        http_requests_append)
next
  case Close
  then show ?thesis
    using fire_Close [of en s] by (simp add: request_signals_def http_requests_append)
next
  case (Save a)
  then show ?thesis
    using fire_Save_frame [of en a s]
    by (simp add: request_signals_def http_requests_append poll_request_def)
next
  case (Processed a)
  then show ?thesis
    using fire_Processed [of en a s] by (simp add: request_signals_def http_requests_append)
qed

lemma fresh_signals_grow:
  assumes "controller s < next_controller s" "distinct (request_signals s)"
    "\<forall>x \<in> set (request_signals s). x < next_controller s \<and> x \<noteq> controller s"
    and "controller t = controller s"
    and "(request_signals t = request_signals s \<and> next_controller t = next_controller s)
       \<or> (request_signals t = request_signals s @ [next_controller s]
          \<and> next_controller t = Suc (next_controller s))"
  shows "controller t < next_controller t \<and> distinct (request_signals t)
     \<and> (\<forall>x \<in> set (request_signals t). x < next_controller t \<and> x \<noteq> controller t)"
  using assms by (fastforce simp add: less_Suc_eq)

lemma fresh_signals_fire:
  "controller (fire en ev s) = controller s
   \<and> ((request_signals (fire en ev s) = request_signals s
        \<and> next_controller (fire en ev s) = next_controller s)
      \<or> (request_signals (fire en ev s) = request_signals s @ [next_controller s]
        \<and> next_controller (fire en ev s) = Suc (next_controller s)))"
  using fire_signals [of en ev s] fire_controller [of en ev s] by (cases ev) simp_all

lemma fresh_signals_resume:
  "controller (resume en i s) = controller s
   \<and> ((request_signals (resume en i s) = request_signals s
        \<and> next_controller (resume en i s) = next_controller s)
      \<or> (request_signals (resume en i s) = request_signals s @ [next_controller s]
        \<and> next_controller (resume en i s) = Suc (next_controller s)))"
proof -
  have a: "controller (after_request en d s) = controller s"
    "next_controller (after_request en d s) = Suc (next_controller s)" for d
    by (simp_all add: after_request_def)
  have b: "request_signals (fire en (Processed a) t) = request_signals t"
    "next_controller (fire en (Processed a) t) = next_controller t" for a t
    using fire_signals [of en "Processed a" t] by simp_all
  from resume_cases [of en i s] show ?thesis
    by (auto simp add: request_signals_pending request_signals_after_request a b
        fire_controller)
qed

lemma fresh_signals_step:
  assumes "controller s < next_controller s" "distinct (request_signals s)"
    "\<forall>x \<in> set (request_signals s). x < next_controller s \<and> x \<noteq> controller s"
  shows "controller (step en a s) = controller s
     \<and> controller (step en a s) < next_controller (step en a s)
     \<and> distinct (request_signals (step en a s))
     \<and> (\<forall>x \<in> set (request_signals (step en a s)).
           x < next_controller (step en a s) \<and> x \<noteq> controller (step en a s))"
proof -
  have "controller (step en a s) = controller s
   \<and> ((request_signals (step en a s) = request_signals s
        \<and> next_controller (step en a s) = next_controller s)
      \<or> (request_signals (step en a s) = request_signals s @ [next_controller s]
        \<and> next_controller (step en a s) = Suc (next_controller s)))"
  proof (cases a)
    case Execute
    then show ?thesis using fresh_signals_fire [of en Open s] by (simp add: execute_def)
  next
    case (Fire ev)
    then show ?thesis using fresh_signals_fire [of en ev s] by simp
  next
    case (Change sel)
    then show ?thesis by (simp add: request_signals_def refresh_frame)
  next
    case (Resume i)
    then show ?thesis using fresh_signals_resume [of en i s] by simp
  qed
  then have c: "controller (step en a s) = controller s"
    and g: "(request_signals (step en a s) = request_signals s
        \<and> next_controller (step en a s) = next_controller s)
      \<or> (request_signals (step en a s) = request_signals s @ [next_controller s]
        \<and> next_controller (step en a s) = Suc (next_controller s))" by blast+
  from fresh_signals_grow [OF assms c g] c show ?thesis by simp
qed

lemma fresh_signals_run:
  "controller s < next_controller s \<Longrightarrow> distinct (request_signals s) \<Longrightarrow>
   \<forall>x \<in> set (request_signals s). x < next_controller s \<and> x \<noteq> controller s \<Longrightarrow>
   controller (run en as s) = controller s
   \<and> distinct (request_signals (run en as s))
   \<and> (\<forall>x \<in> set (request_signals (run en as s)). x \<noteq> controller (run en as s))"
proof (induction as arbitrary: s)
  case Nil
  then show ?case by simp
next
  case (Cons a as)
  note st = fresh_signals_step [OF Cons.prems, of en a]
  from st have p: "controller (step en a s) < next_controller (step en a s)"
    "distinct (request_signals (step en a s))"
    "\<forall>x \<in> set (request_signals (step en a s)).
        x < next_controller (step en a s) \<and> x \<noteq> controller (step en a s)"
    by blast+
  from Cons.IH [OF p] st show ?case by auto
qed

text \<open>
  C10. A call of \<^verbatim>\<open>_getAssetStatusFromServer\<close> creates an AbortController and sends one
  request carrying its signal; the controller is a new one. The attempts of one wait
  carry consecutively created, hence different, signals. In every state reached from
  the constructor by any sequence of tasks no two status requests of the trace share
  a signal, and none carries the signal of the controller made by the constructor,
  which stays the controller of the command.
\<close>

theorem fresh_abort_controller_per_request:
  "log (snd (getAssetStatusFromServer en d s))
     = log s @ [NewAbortController (next_controller s), HttpRequest (poll_request en d s)]
   \<and> signal (poll_request en d s) = next_controller s
   \<and> next_controller (snd (getAssetStatusFromServer en d s)) = Suc (next_controller s)
   \<and> (\<exists>m. request_signals (snd (waitForAssetProcessed en a s))
            = request_signals s @ [next_controller s..<next_controller s + m])
   \<and> distinct (request_signals (run en as (init sel)))
   \<and> controller (run en as (init sel)) \<notin> set (request_signals (run en as (init sel)))
   \<and> controller (run en as (init sel)) = controller (init sel)"
proof -
  have one: "log (snd (getAssetStatusFromServer en d s))
     = log s @ [NewAbortController (next_controller s), HttpRequest (poll_request en d s)]
   \<and> signal (poll_request en d s) = next_controller s
   \<and> next_controller (snd (getAssetStatusFromServer en d s)) = Suc (next_controller s)"
    by (simp add: snd_getAssetStatusFromServer after_request_def poll_request_def)
  obtain m where "snd (waitForAssetProcessed en a s) = after_requests en (data a) m s"
    using waitForAssetProcessed_state [of en a s] by blast
  then have "request_signals (snd (waitForAssetProcessed en a s))
            = request_signals s @ [next_controller s..<next_controller s + m]"
    by (simp add: request_signals_def after_requests_def http_requests_append signals_poll_log)
  then have wait: "\<exists>m. request_signals (snd (waitForAssetProcessed en a s))
            = request_signals s @ [next_controller s..<next_controller s + m]" ..
  have "controller (init sel) < next_controller (init sel)"
    "distinct (request_signals (init sel))"
    "\<forall>x \<in> set (request_signals (init sel)).
        x < next_controller (init sel) \<and> x \<noteq> controller (init sel)"
    by (simp_all add: init_def request_signals_def)
  from fresh_signals_run [OF this, of en as] one wait show ?thesis by blast
qed

theorem fresh_abort_controller_per_request_witness:
  "request_signals
     (run (mock_env 4 (queued_then_success 2)) [Fire (Save asset_A1), Resume 0, Resume 0, Resume 0, Resume 0, Resume 0] (init None))
     = [1, 2, 3]
   \<and> distinct (request_signals
     (run (mock_env 4 (queued_then_success 2)) [Fire (Save asset_A1), Resume 0, Resume 0, Resume 0, Resume 0, Resume 0] (init None)))
   \<and> controller
     (run (mock_env 4 (queued_then_success 2)) [Fire (Save asset_A1), Resume 0, Resume 0, Resume 0, Resume 0, Resume 0] (init None))
     = 0
   \<and> controller
     (run (mock_env 4 (queued_then_success 2)) [Fire (Save asset_A1), Resume 0, Resume 0, Resume 0, Resume 0, Resume 0] (init None))
     \<notin> set (request_signals
     (run (mock_env 4 (queued_then_success 2)) [Fire (Save asset_A1), Resume 0, Resume 0, Resume 0, Resume 0, Resume 0] (init None)))"
proof -
  let ?s = "run (mock_env 4 (queued_then_success 2)) [Fire (Save asset_A1), Resume 0, Resume 0, Resume 0, Resume 0, Resume 0]
              (init None)"
  have "request_signals ?s = [1, 2, 3]"
    by (simp add: mock_env_def queued_then_success_def init_def resume_def fire_def
        refresh_def save_handler_def processed_handler_def send_status_request_def
        check_status_def Let_def falsy_def status_response_def
        asset_A1_def request_signals_def getValue_def isImageElement_def hasCkboxImageId_def
        getAttribute_def)
  moreover have "controller (init None) = 0" by (simp add: init_def)
  ultimately show ?thesis
    using fresh_abort_controller_per_request
      [of "mock_env 4 (queued_then_success 2)" "data asset_A1" "init None" asset_A1
          "[Fire (Save asset_A1), Resume 0, Resume 0, Resume 0, Resume 0, Resume 0]" None]
    by simp
qed

section \<open>From save to processed\<close>

lemma waitForAssetProcessed_succeeds:
  assumes "\<And>k req. k < m \<Longrightarrow> \<not> ready (sendHttpRequest en (requests s + k) req)"
    and "\<And>req. sendHttpRequest en (requests s + m) req = Inr r"
    and "ready (Inr r)" and "m < max 1 (maxAttempts en)"
  shows "waitForAssetProcessed en a s = (Some r, after_requests en (data a) (Suc m) s)"
  using retry_succeeds [of m en s r "maxAttempts en" "data a"] assms
  by (simp add: waitForAssetProcessed_def)

lemma waitForAssetProcessed_exhausted:
  assumes "\<And>k req. k < max 1 (maxAttempts en) \<Longrightarrow>
             \<not> ready (sendHttpRequest en (requests s + k) req)"
  shows "waitForAssetProcessed en a s
           = (None, after_requests en (data a) (max 1 (maxAttempts en)) s)"
proof -
  obtain e where "retry (maxAttempts en) (getAssetStatusFromServer en (data a)) s
      = (Inl e, after_requests en (data a) (max 1 (maxAttempts en)) s)"
    using retry_exhausted [of "maxAttempts en" en s "data a"] assms by blast
  then show ?thesis by (simp add: waitForAssetProcessed_def)
qed

text \<open>The trace of a poll sequence that goes on undisturbed until it settles.\<close>

lemma poll_settles_trace:
  assumes "i < length (pending t)"
  shows "\<exists>k. fired (log (run en (replicate k (Resume i)) t))
          = fired (log t) @ [Processed (p_asset (pending t ! i))]
      \<and> insert_images (log (run en (replicate k (Resume i)) t))
          = insert_images (log t)
            @ [image_source_of (prepareImageAssetAttributes en (p_asset (pending t ! i)))]
      \<and> wrapper (run en (replicate k (Resume i)) t) = wrapper t"
proof -
  from poll_settles [OF assms, of en] obtain k m where
    "run en (replicate k (Resume i)) t
      = fire en (Processed (p_asset (pending t ! i)))
          ((after_requests en (data (p_asset (pending t ! i))) m t)
             \<lparr>pending := take i (pending t) @ drop (Suc i) (pending t)\<rparr>)" by blast
  then have "fired (log (run en (replicate k (Resume i)) t))
          = fired (log t) @ [Processed (p_asset (pending t ! i))]
      \<and> insert_images (log (run en (replicate k (Resume i)) t))
          = insert_images (log t)
            @ [image_source_of (prepareImageAssetAttributes en (p_asset (pending t ! i)))]
      \<and> wrapper (run en (replicate k (Resume i)) t) = wrapper t"
    by (simp add: fire_Processed after_requests_def fired_append insert_images_append
        poll_log_silent)
  then show ?thesis ..
qed

lemma save_then_poll_trace:
  assumes "snd (waitForAssetProcessed en a (refresh (s\<lparr>log := log s @ [Fired (Save a)]\<rparr>)))
     = after_requests en (data a) m (refresh (s\<lparr>log := log s @ [Fired (Save a)]\<rparr>))"
  shows "\<exists>k. fired (log (run en (Fire (Save a) # replicate k (Resume (length (pending s)))) s))
          = fired (log s) @ [Save a, Processed a]
      \<and> insert_images
          (log (run en (Fire (Save a) # replicate k (Resume (length (pending s)))) s))
          = insert_images (log s) @ [image_source_of (prepareImageAssetAttributes en a)]
      \<and> set_attributes
          (log (run en (Fire (Save a) # replicate k (Resume (length (pending s)))) s))
          = set_attributes (log s) @ [(''ckboxImageId'', asset_id (data a))]
      \<and> requests (run en (Fire (Save a) # replicate k (Resume (length (pending s)))) s)
          = requests s + m
      \<and> length (http_requests
          (log (run en (Fire (Save a) # replicate k (Resume (length (pending s)))) s)))
          = length (http_requests (log s)) + m"
proof -
  from save_then_poll [of en a s] obtain k where
    "run en (Fire (Save a) # replicate k (Resume (length (pending s)))) s
      = fire en (Processed a)
          ((snd (waitForAssetProcessed en a (refresh (s\<lparr>log := log s @ [Fired (Save a)]\<rparr>))))
             \<lparr>pending := pending s\<rparr>)" by blast
  then have "run en (Fire (Save a) # replicate k (Resume (length (pending s)))) s
      = fire en (Processed a)
          ((after_requests en (data a) m (refresh (s\<lparr>log := log s @ [Fired (Save a)]\<rparr>)))
             \<lparr>pending := pending s\<rparr>)" by (simp only: assms)
  then have "fired (log (run en (Fire (Save a) # replicate k (Resume (length (pending s)))) s))
          = fired (log s) @ [Save a, Processed a]
      \<and> insert_images
          (log (run en (Fire (Save a) # replicate k (Resume (length (pending s)))) s))
          = insert_images (log s) @ [image_source_of (prepareImageAssetAttributes en a)]
      \<and> set_attributes
          (log (run en (Fire (Save a) # replicate k (Resume (length (pending s)))) s))
          = set_attributes (log s) @ [(''ckboxImageId'', asset_id (data a))]
      \<and> requests (run en (Fire (Save a) # replicate k (Resume (length (pending s)))) s)
          = requests s + m
      \<and> length (http_requests
          (log (run en (Fire (Save a) # replicate k (Resume (length (pending s)))) s)))
          = length (http_requests (log s)) + m"
    by (simp only: fire_Processed)
       (simp add: after_requests_def refresh_frame fired_append insert_images_append
         set_attributes_append http_requests_append poll_log_silent length_requests_poll_log)
  then show ?thesis ..
qed

text \<open>
  C2. A save event followed by the tasks of its poll sequence always ends in the
  processed event being fired with the asset of the save event, and in one
  insert-image operation with the attributes of that asset, whatever the status
  endpoint answers. This includes the case in which every attempt the retry makes
  fails: there \<^verbatim>\<open>_waitForAssetProcessed\<close> resolves with undefined after as many requests
  as the bound allows, and the image is inserted all the same. Task by task: whenever
  the answer a poll sequence waits for is a ready response, or a failure with no
  attempt left, the task fires the processed event with the asset of the save event.
\<close>

theorem processed_fired_whenever_wait_resolves:
  "(\<exists>k. fired (log (run en (Fire (Save a) # replicate k (Resume (length (pending s)))) s))
          = fired (log s) @ [Save a, Processed a]
      \<and> insert_images
          (log (run en (Fire (Save a) # replicate k (Resume (length (pending s)))) s))
          = insert_images (log s) @ [image_source_of (prepareImageAssetAttributes en a)])
   \<and> ((\<forall>k < max 1 (maxAttempts en). \<forall>req.
          \<not> ready (sendHttpRequest en (requests s + k) req))
      \<longrightarrow> fst (waitForAssetProcessed en a s) = None
        \<and> (\<exists>k. requests (run en (Fire (Save a) # replicate k (Resume (length (pending s)))) s)
                 = requests s + max 1 (maxAttempts en)
             \<and> insert_images
                 (log (run en (Fire (Save a) # replicate k (Resume (length (pending s)))) s))
                 = insert_images (log s)
                   @ [image_source_of (prepareImageAssetAttributes en a)]))
   \<and> (i < length (pending s) \<and> p_reply (pending s ! i) = Some reply
        \<and> (ready reply \<or> p_left (pending s ! i) \<le> 1)
      \<longrightarrow> resume en i s
            = fire en (Processed (p_asset (pending s ! i)))
                (s\<lparr>pending := take i (pending s) @ drop (Suc i) (pending s)\<rparr>))"
proof -
  let ?s0 = "refresh (s\<lparr>log := log s @ [Fired (Save a)]\<rparr>)"
  obtain m where "snd (waitForAssetProcessed en a ?s0) = after_requests en (data a) m ?s0"
    using waitForAssetProcessed_state [of en a ?s0] by blast
  from save_then_poll_trace [OF this]
  have always: "\<exists>k. fired (log (run en (Fire (Save a) # replicate k (Resume (length (pending s)))) s))
          = fired (log s) @ [Save a, Processed a]
      \<and> insert_images
          (log (run en (Fire (Save a) # replicate k (Resume (length (pending s)))) s))
          = insert_images (log s) @ [image_source_of (prepareImageAssetAttributes en a)]"
    by blast
  have exhausted: "fst (waitForAssetProcessed en a s) = None
        \<and> (\<exists>k. requests (run en (Fire (Save a) # replicate k (Resume (length (pending s)))) s)
                 = requests s + max 1 (maxAttempts en)
             \<and> insert_images
                 (log (run en (Fire (Save a) # replicate k (Resume (length (pending s)))) s))
                 = insert_images (log s)
                   @ [image_source_of (prepareImageAssetAttributes en a)])"
    if h: "\<forall>k < max 1 (maxAttempts en). \<forall>req.
          \<not> ready (sendHttpRequest en (requests s + k) req)"
  proof -
    have "requests ?s0 = requests s" by (simp add: refresh_frame)
    with h have "waitForAssetProcessed en a ?s0
           = (None, after_requests en (data a) (max 1 (maxAttempts en)) ?s0)"
      using waitForAssetProcessed_exhausted [of en ?s0 a] by simp
    then have "snd (waitForAssetProcessed en a ?s0)
           = after_requests en (data a) (max 1 (maxAttempts en)) ?s0" by simp
    from save_then_poll_trace [OF this]
    have "\<exists>k. requests (run en (Fire (Save a) # replicate k (Resume (length (pending s)))) s)
                 = requests s + max 1 (maxAttempts en)
             \<and> insert_images
                 (log (run en (Fire (Save a) # replicate k (Resume (length (pending s)))) s))
                 = insert_images (log s)
                   @ [image_source_of (prepareImageAssetAttributes en a)]" by blast
    moreover have "fst (waitForAssetProcessed en a s) = None"
      using waitForAssetProcessed_exhausted [of en s a] h by simp
    ultimately show ?thesis by blast
  qed
  have task: "resume en i s
            = fire en (Processed (p_asset (pending s ! i)))
                (s\<lparr>pending := take i (pending s) @ drop (Suc i) (pending s)\<rparr>)"
    if "i < length (pending s) \<and> p_reply (pending s ! i) = Some reply
        \<and> (ready reply \<or> p_left (pending s ! i) \<le> 1)"
    using that resume_finish [of i s reply en] by blast
  from always exhausted task show ?thesis by blast
qed

theorem processed_fired_whenever_wait_resolves_witness:
  "fst (waitForAssetProcessed (mock_env 2 always_queued) asset_A1 (init None)) = None
   \<and> fired (log (run (mock_env 2 always_queued)
                    [Fire (Save asset_A1), Resume 0, Resume 0, Resume 0] (init None)))
       = [Save asset_A1, Processed asset_A1]
   \<and> insert_images (log (run (mock_env 2 always_queued)
                    [Fire (Save asset_A1), Resume 0, Resume 0, Resume 0] (init None)))
       = [image_source_of attrs_saved]
   \<and> requests (run (mock_env 2 always_queued)
                    [Fire (Save asset_A1), Resume 0, Resume 0, Resume 0] (init None)) = 2"
proof -
  let ?en = "mock_env 2 always_queued"
  have h: "\<forall>k < max 1 (maxAttempts ?en). \<forall>req.
             \<not> ready (sendHttpRequest ?en (requests (init None) + k) req)"
    by (simp add: mock_env_def always_queued_def ready_def status_of_def status_response_def
        falsy_def)
  from processed_fired_whenever_wait_resolves [of ?en asset_A1 "init None" 0 "always_queued 0"] h
  have 1: "fst (waitForAssetProcessed ?en asset_A1 (init None)) = None" by blast
  have 2: "fired (log (run ?en [Fire (Save asset_A1), Resume 0, Resume 0, Resume 0] (init None)))
       = [Save asset_A1, Processed asset_A1]
   \<and> insert_images (log (run ?en [Fire (Save asset_A1), Resume 0, Resume 0, Resume 0]
         (init None))) = [image_source_of attrs_saved]
   \<and> requests (run ?en [Fire (Save asset_A1), Resume 0, Resume 0, Resume 0] (init None)) = 2"
    by (simp add: mock_env_def always_queued_def init_def resume_def fire_def refresh_def
        save_handler_def processed_handler_def send_status_request_def check_status_def
        Let_def falsy_def status_response_def asset_A1_def getValue_def isImageElement_def
        hasCkboxImageId_def getAttribute_def)
  from 1 2 show ?thesis by simp
qed

section \<open>Closing while a poll sequence is pending\<close>

text \<open>
  C9. When the dialog is closed while a poll sequence started by a save event is
  pending, whether the answer to a status request or the delay of the retry loop is
  under way, the close event leaves the poll sequence as it is and puts the
  controller in the closed state (no mount point, \<open>value\<close> false). The tasks of the
  poll sequence go on after the close and end in the processed event being fired with
  the asset of the save event and in the insert-image operation, while the controller
  is still closed. In particular this holds for a save and a close in a row from any
  state.
\<close>

theorem close_does_not_cancel_poll:
  "(i < length (pending s) \<longrightarrow>
       pending (fire en Close s) = pending s
     \<and> wrapper (fire en Close s) = None \<and> \<not> cmd_value (fire en Close s)
     \<and> (\<exists>k. fired (log (run en (replicate k (Resume i)) (fire en Close s)))
               = fired (log s) @ [Close, Processed (p_asset (pending s ! i))]
           \<and> insert_images (log (run en (replicate k (Resume i)) (fire en Close s)))
               = insert_images (log s)
                 @ [image_source_of (prepareImageAssetAttributes en (p_asset (pending s ! i)))]
           \<and> wrapper (run en (replicate k (Resume i)) (fire en Close s)) = None))
   \<and> (\<exists>k. fired (log (run en (Fire (Save a) # Fire Close
                               # replicate k (Resume (length (pending s)))) s))
             = fired (log s) @ [Save a, Close, Processed a]
         \<and> wrapper (run en (Fire (Save a) # Fire Close
                               # replicate k (Resume (length (pending s)))) s) = None)"
proof -
  have closed: "pending (fire en Close t) = pending t" "wrapper (fire en Close t) = None"
    "\<not> cmd_value (fire en Close t)"
    "fired (log (fire en Close t)) = fired (log t) @ [Close]"
    "insert_images (log (fire en Close t)) = insert_images (log t)" for t
    using fire_Close [of en t] by (simp_all add: fired_append insert_images_append)
  have later: "\<exists>k. fired (log (run en (replicate k (Resume j)) (fire en Close t)))
               = fired (log t) @ [Close, Processed (p_asset (pending t ! j))]
           \<and> insert_images (log (run en (replicate k (Resume j)) (fire en Close t)))
               = insert_images (log t)
                 @ [image_source_of (prepareImageAssetAttributes en (p_asset (pending t ! j)))]
           \<and> wrapper (run en (replicate k (Resume j)) (fire en Close t)) = None"
    if "j < length (pending t)" for j t
  proof -
    from that have j: "j < length (pending (fire en Close t))" by (simp add: closed)
    from poll_settles_trace [OF j, of en] show ?thesis by (simp add: closed)
  qed
  let ?s1 = "fire en (Save a) s"
  have p: "length (pending s) < length (pending ?s1)"
    "p_asset (pending ?s1 ! length (pending s)) = a"
    "fired (log ?s1) = fired (log s) @ [Save a]"
    by (simp_all add: fire_Save after_request_def refresh_frame fired_append)
  from later [OF p(1)] p(2,3)
  have "\<exists>k. fired (log (run en (Fire (Save a) # Fire Close
                               # replicate k (Resume (length (pending s)))) s))
             = fired (log s) @ [Save a, Close, Processed a]
         \<and> wrapper (run en (Fire (Save a) # Fire Close
                               # replicate k (Resume (length (pending s)))) s) = None"
    by auto
  with later [of i s] closed [of s] show ?thesis by blast
qed

theorem close_does_not_cancel_poll_witness:
  "pending (fire (mock_env 4 (queued_then_success 2)) Close
        (fire (mock_env 4 (queued_then_success 2)) (Save asset_A1) open_A1))
     = pending (fire (mock_env 4 (queued_then_success 2)) (Save asset_A1) open_A1)
   \<and> length (pending (fire (mock_env 4 (queued_then_success 2)) (Save asset_A1) open_A1)) = 1
   \<and> log (run (mock_env 4 (queued_then_success 2))
            [Fire (Save asset_A1), Fire Close, Resume 0, Resume 0, Resume 0, Resume 0, Resume 0]
            open_A1)
     = [NewAbortController 0, Fired Open,
        MountImageEditor 0 (Some ''A1'') ''https://example.com/token'',
        Fired (Save asset_A1), NewAbortController 1,
        HttpRequest \<lparr> url = URL ''assets/A1'' ''https://api.ckbox.io'', signal = 1,
                      authorization = ''jwt'' \<rparr>,
        Fired Close, Focus,
        NewAbortController 2,
        HttpRequest \<lparr> url = URL ''assets/A1'' ''https://api.ckbox.io'', signal = 2,
                      authorization = ''jwt'' \<rparr>,
        NewAbortController 3,
        HttpRequest \<lparr> url = URL ''assets/A1'' ''https://api.ckbox.io'', signal = 3,
                      authorization = ''jwt'' \<rparr>,
        Fired (Processed asset_A1), InsertImage (image_source_of attrs_saved),
        SetAttribute ''ckboxImageId'' ''A1'']
   \<and> wrapper (run (mock_env 4 (queued_then_success 2))
            [Fire (Save asset_A1), Fire Close, Resume 0, Resume 0, Resume 0, Resume 0, Resume 0]
            open_A1) = None"
proof -
  let ?en = "mock_env 4 (queued_then_success 2)"
  let ?s1 = "fire ?en (Save asset_A1) open_A1"
  have p: "length (pending ?s1) = 1"
    by (simp add: fire_def refresh_def save_handler_def send_status_request_def open_A1_eq
        Let_def)
  then have i: "0 < length (pending ?s1)" by simp
  from close_does_not_cancel_poll [of 0 ?s1 ?en asset_A1] i
  have 1: "pending (fire ?en Close ?s1) = pending ?s1" by blast
  have 2: "log (run ?en
            [Fire (Save asset_A1), Fire Close, Resume 0, Resume 0, Resume 0, Resume 0, Resume 0]
            open_A1)
     = [NewAbortController 0, Fired Open,
        MountImageEditor 0 (Some ''A1'') ''https://example.com/token'',
        Fired (Save asset_A1), NewAbortController 1,
        HttpRequest \<lparr> url = URL ''assets/A1'' ''https://api.ckbox.io'', signal = 1,
                      authorization = ''jwt'' \<rparr>,
        Fired Close, Focus,
        NewAbortController 2,
        HttpRequest \<lparr> url = URL ''assets/A1'' ''https://api.ckbox.io'', signal = 2,
                      authorization = ''jwt'' \<rparr>,
        NewAbortController 3,
        HttpRequest \<lparr> url = URL ''assets/A1'' ''https://api.ckbox.io'', signal = 3,
                      authorization = ''jwt'' \<rparr>,
        Fired (Processed asset_A1), InsertImage (image_source_of attrs_saved),
        SetAttribute ''ckboxImageId'' ''A1'']
   \<and> wrapper (run ?en
            [Fire (Save asset_A1), Fire Close, Resume 0, Resume 0, Resume 0, Resume 0, Resume 0]
            open_A1) = None"
    by (simp add: open_A1_eq mock_env_def queued_then_success_def resume_def fire_def
        refresh_def save_handler_def close_handler_def processed_handler_def
        send_status_request_def check_status_def Let_def falsy_def status_response_def
        asset_A1_def getValue_def isImageElement_def hasCkboxImageId_def getAttribute_def
        image_A1_def)
  from 1 2 p show ?thesis by simp
qed

section \<open>What the processed event carries\<close>

text \<open>
  C1, as the code has it. Let the status endpoint answer \<open>queued\<close> to the next \<open>N\<close>
  requests and \<open>success\<close>, with response \<open>r\<close>, to the one after, and let \<open>N + 1\<close> attempts
  be within the retry bound. Then \<^verbatim>\<open>_waitForAssetProcessed\<close> resolves with \<open>r\<close> after
  exactly \<open>N + 1\<close> status requests, and so do the tasks of the poll sequence a save event
  starts. The processed event that follows carries the asset of the save event; the
  response the poller resolved with is not used: the image attributes of the
  insert-image operation are those of the saved asset, and the selected element is
  tagged with its id.
\<close>

theorem processed_carries_saved_asset:
  assumes "\<forall>k < N. \<forall>req. \<exists>q. sendHttpRequest en (requests s + k) req = Inr q
                              \<and> status_of q = Some ''queued''"
    and "\<forall>req. sendHttpRequest en (requests s + N) req = Inr r"
    and "status_of r = Some ''success''"
    and "N < max 1 (maxAttempts en)"
  shows "fst (waitForAssetProcessed en a s) = Some r
     \<and> requests (snd (waitForAssetProcessed en a s)) = requests s + N + 1
     \<and> length (http_requests (log (snd (waitForAssetProcessed en a s))))
         = length (http_requests (log s)) + N + 1
     \<and> (\<exists>k. fired (log (run en (Fire (Save a) # replicate k (Resume (length (pending s)))) s))
              = fired (log s) @ [Save a, Processed a]
          \<and> insert_images
              (log (run en (Fire (Save a) # replicate k (Resume (length (pending s)))) s))
              = insert_images (log s) @ [image_source_of (prepareImageAssetAttributes en a)]
          \<and> set_attributes
              (log (run en (Fire (Save a) # replicate k (Resume (length (pending s)))) s))
              = set_attributes (log s) @ [(''ckboxImageId'', asset_id (data a))]
          \<and> requests (run en (Fire (Save a) # replicate k (Resume (length (pending s)))) s)
              = requests s + N + 1)"
proof -
  let ?s0 = "refresh (s\<lparr>log := log s @ [Fired (Save a)]\<rparr>)"
  have fails: "\<not> ready (sendHttpRequest en (requests s + k) req)" if "k < N" for k req
  proof -
    from assms(1) that obtain q where
      "sendHttpRequest en (requests s + k) req = Inr q" "status_of q = Some ''queued''"
      by blast
    then show ?thesis by (simp add: ready_def)
  qed
  have answer: "sendHttpRequest en (requests s + N) req = Inr r" for req
    using assms(2) by simp
  have rdy: "ready (Inr r)" using assms(3) by (simp add: ready_def falsy_def)
  from waitForAssetProcessed_succeeds [of N en s r a, OF fails answer rdy assms(4)]
  have w: "waitForAssetProcessed en a s = (Some r, after_requests en (data a) (Suc N) s)"
    by simp
  have r0: "requests ?s0 = requests s" by (simp add: refresh_frame)
  from waitForAssetProcessed_succeeds [of N en ?s0 r a] fails answer rdy assms(4)
  have "snd (waitForAssetProcessed en a ?s0) = after_requests en (data a) (Suc N) ?s0"
    by (simp add: r0)
  from save_then_poll_trace [OF this]
  have "\<exists>k. fired (log (run en (Fire (Save a) # replicate k (Resume (length (pending s)))) s))
              = fired (log s) @ [Save a, Processed a]
          \<and> insert_images
              (log (run en (Fire (Save a) # replicate k (Resume (length (pending s)))) s))
              = insert_images (log s) @ [image_source_of (prepareImageAssetAttributes en a)]
          \<and> set_attributes
              (log (run en (Fire (Save a) # replicate k (Resume (length (pending s)))) s))
              = set_attributes (log s) @ [(''ckboxImageId'', asset_id (data a))]
          \<and> requests (run en (Fire (Save a) # replicate k (Resume (length (pending s)))) s)
              = requests s + N + 1"
    by auto
  then show ?thesis
    by (simp add: w after_requests_def http_requests_append length_requests_poll_log)
qed

theorem processed_carries_saved_asset_witness:
  "fst (waitForAssetProcessed (mock_env 4 (queued_then_success 2)) asset_A1 (init None))
     = Some (status_response (Some ''success''))
   \<and> requests (snd (waitForAssetProcessed (mock_env 4 (queued_then_success 2)) asset_A1
          (init None))) = 3
   \<and> (\<exists>k. fired (log (run (mock_env 4 (queued_then_success 2))
                    (Fire (Save asset_A1) # replicate k (Resume 0)) (init None)))
            = [Save asset_A1, Processed asset_A1]
        \<and> insert_images (log (run (mock_env 4 (queued_then_success 2))
                    (Fire (Save asset_A1) # replicate k (Resume 0)) (init None)))
            = [image_source_of attrs_saved]
        \<and> set_attributes (log (run (mock_env 4 (queued_then_success 2))
                    (Fire (Save asset_A1) # replicate k (Resume 0)) (init None)))
            = [(''ckboxImageId'', ''A1'')]
        \<and> requests (run (mock_env 4 (queued_then_success 2))
                    (Fire (Save asset_A1) # replicate k (Resume 0)) (init None)) = 3)"
proof -
  let ?en = "mock_env 4 (queued_then_success 2)"
  have i: "requests (init None) = 0" "length (pending (init None)) = 0"
    "fired (log (init None)) = []" "insert_images (log (init None)) = []"
    "set_attributes (log (init None)) = []" by (simp_all add: init_def)
  have h1: "\<forall>k < 2. \<forall>req. \<exists>q. sendHttpRequest ?en (requests (init None) + k) req = Inr q
                              \<and> status_of q = Some ''queued''"
    by (simp add: i mock_env_def queued_then_success_def status_of_def status_response_def)
  have h2: "\<forall>req. sendHttpRequest ?en (requests (init None) + 2) req
              = Inr (status_response (Some ''success''))"
    by (simp add: i mock_env_def queued_then_success_def)
  have h3: "status_of (status_response (Some ''success'')) = Some ''success''"
    by (simp add: status_of_def status_response_def)
  have h4: "2 < max 1 (maxAttempts ?en)" by (simp add: mock_env_def)
  have a: "prepareImageAssetAttributes ?en asset_A1 = attrs_saved"
    "asset_id (data asset_A1) = ''A1''"
    by (simp_all add: mock_env_def asset_A1_def)
  from processed_carries_saved_asset [OF h1 h2 h3 h4, of asset_A1]
  show ?thesis unfolding i a by auto
qed

text \<open>
  C1 as stated fails twice. With two \<open>queued\<close> answers and then \<open>success\<close>, the poller
  resolves with the refined response, but the processed event carries the saved asset,
  whose data differ from the response, and the inserted image has the attributes of
  the saved asset, not those of the response. And with four \<open>queued\<close> answers before
  the \<open>success\<close> and a bound of four attempts, the poller resolves with undefined.
\<close>

theorem processed_ignores_poll_result:
  "fst (waitForAssetProcessed (mock_env 4 (queued_then_success 2)) asset_A1 (init None))
     = Some (status_response (Some ''success''))
   \<and> fired (log (run (mock_env 4 (queued_then_success 2))
        [Fire (Save asset_A1), Resume 0, Resume 0, Resume 0, Resume 0, Resume 0] (init None)))
       = [Save asset_A1, Processed asset_A1]
   \<and> data asset_A1 \<noteq> status_response (Some ''success'')
   \<and> insert_images (log (run (mock_env 4 (queued_then_success 2))
        [Fire (Save asset_A1), Resume 0, Resume 0, Resume 0, Resume 0, Resume 0] (init None)))
       = [image_source_of attrs_saved]
   \<and> image_source_of attrs_saved
       \<noteq> image_source_of (prepareImageAssetAttributes (mock_env 4 (queued_then_success 2))
             \<lparr> data = status_response (Some ''success'') \<rparr>)
   \<and> fst (waitForAssetProcessed (mock_env 4 (queued_then_success 4)) asset_A1 (init None))
       = None"
  by (simp add: mock_env_def queued_then_success_def init_def resume_def fire_def
      refresh_def save_handler_def processed_handler_def waitForAssetProcessed_def
      retry.simps getAssetStatusFromServer_def send_status_request_def check_status_def
      Let_def falsy_def status_response_def asset_A1_def getValue_def isImageElement_def
      hasCkboxImageId_def getAttribute_def image_source_of_def attrs_saved_def
      attrs_refined_def)

end
